theory Spec2Isabelle
  imports Main "HOL-Library.Product_Lexorder" "HOL-Library.List_Lexorder" "HOL-Library.Char_ord"
begin

section \<open>Time, exceptions and provider data\<close>

text \<open>
  Every datetime the interval code handles carries the same \<open>tzinfo\<close> object (the
  configured zone): \<open>day_start\<close> and \<open>day_end\<close> through \<open>replace(tzinfo=tz)\<close>, parsed
  event times through \<open>astimezone(tz)\<close>. Python compares, subtracts and shifts such values
  on their wall-clock fields, so an instant is the wall-clock reading in microseconds
  (the resolution of \<open>datetime\<close>), and a \<open>timedelta\<close> is a number of microseconds.
\<close>

type_synonym instant = int
type_synonym timedelta = int

datatype exn =
    ValueError
  | TypeError
  | KeyError
  | OverflowError
  | EnvironmentError
  | HttpError int
  | APIResponseError string string
  | OtherError string

text \<open>
  The \<open>start\<close> and \<open>end\<close> sub-dictionaries of a Google Calendar event, and the
  event: \<open>ev["start"]\<close> and \<open>ev["end"]\<close> are read by key (\<open>None\<close>: the key is
  missing), the other fields with \<open>get\<close>.
\<close>

record gcal_time =
  gt_dateTime :: "string option"
  gt_date :: "string option"

record gcal_event =
  ev_start :: "gcal_time option"
  ev_end :: "gcal_time option"
  ev_summary :: "string option"
  ev_id :: string

text \<open>Python's \<open>a or b\<close> on optional strings: \<open>None\<close> and the empty string are falsy.\<close>

definition py_or :: "string option \<Rightarrow> string option \<Rightarrow> string option" where
  "py_or a b = (case a of None \<Rightarrow> b | Some s \<Rightarrow> if s = [] then b else Some s)"

definition time_str :: "gcal_time \<Rightarrow> string option" where
  "time_str t = py_or (gt_dateTime t) (gt_date t)"

text \<open>\<open>if value:\<close> on an optional string keeps a non-empty string only.\<close>

definition truthy :: "string option \<Rightarrow> string option" where
  "truthy v = (case v of None \<Rightarrow> None | Some s \<Rightarrow> if s = [] then None else Some s)"

text \<open>Python's rendering of an integer in an f-string.\<close>

fun str_nat :: "nat \<Rightarrow> string" where
  "str_nat n =
     (if n < 10 then [''0123456789'' ! n]
      else str_nat (n div 10) @ [''0123456789'' ! (n mod 10)])"

definition str_int :: "int \<Rightarrow> string" where
  "str_int i = (if i < 0 then CHR ''-'' # str_nat (nat (- i)) else str_nat (nat i))"

text \<open>
  The body of the parsing loop shared by \<open>find_free_slots\<close> and
  \<open>schedule_find_conflicts\<close>:
  \<^verbatim>\<open>
  start_str = ev["start"].get("dateTime") or ev["start"].get("date")
  end_str = ev["end"].get("dateTime") or ev["end"].get("date")
  try:
      s = datetime.fromisoformat(start_str).astimezone(tz)
      e = datetime.fromisoformat(end_str).astimezone(tz)
      ...append...
  except ValueError:
      continue
  \<close>
  The parameter \<open>fromiso\<close> stands for \<open>datetime.fromisoformat(_).astimezone(tz)\<close> on a
  string: the instant, or the exception raised (\<open>ValueError\<close> for a string that is not
  an ISO date, \<open>OverflowError\<close> when the conversion leaves the range of \<open>datetime\<close>).
  The two lines before \<open>try\<close> raise \<open>KeyError\<close> on a missing \<open>start\<close> or \<open>end\<close>;
  on a missing string (\<open>None\<close>) \<open>fromisoformat\<close> raises \<open>TypeError\<close>. The handler
  catches \<open>ValueError\<close> only. The result is \<open>Inl\<close> for the exception that escapes,
  \<open>Inr None\<close> for a skipped item.
\<close>

definition guarded ::
  "(string \<Rightarrow> exn + instant) \<Rightarrow> string option \<Rightarrow> exn + instant option" where
  "guarded fromiso str =
     (case str of
        None \<Rightarrow> Inl TypeError
      | Some s \<Rightarrow>
          (case fromiso s of
             Inl x \<Rightarrow> if x = ValueError then Inr None else Inl x
           | Inr t \<Rightarrow> Inr (Some t)))"

definition parse_interval ::
  "(string \<Rightarrow> exn + instant) \<Rightarrow> gcal_event \<Rightarrow> exn + (instant \<times> instant) option" where
  "parse_interval fromiso ev =
     (case ev_start ev of
        None \<Rightarrow> Inl KeyError
      | Some start \<Rightarrow>
     (case ev_end ev of
        None \<Rightarrow> Inl KeyError
      | Some end_time \<Rightarrow>
     (case guarded fromiso (time_str start) of
        Inl x \<Rightarrow> Inl x
      | Inr None \<Rightarrow> Inr None
      | Inr (Some s) \<Rightarrow>
     (case guarded fromiso (time_str end_time) of
        Inl x \<Rightarrow> Inl x
      | Inr None \<Rightarrow> Inr None
      | Inr (Some e) \<Rightarrow> Inr (Some (s, e))))))"

section \<open>Free-slot finder (clients/gcal.py)\<close>

record free_slot =
  fs_start :: instant
  fs_end :: instant

text \<open>The loop that builds \<open>busy\<close>, appending one pair per parsed event.\<close>

fun build_busy ::
  "(string \<Rightarrow> exn + instant) \<Rightarrow> gcal_event list \<Rightarrow> (instant \<times> instant) list
     \<Rightarrow> exn + (instant \<times> instant) list" where
  "build_busy fromiso [] busy = Inr busy"
| "build_busy fromiso (ev # events) busy =
     (case parse_interval fromiso ev of
        Inl x \<Rightarrow> Inl x
      | Inr None \<Rightarrow> build_busy fromiso events busy
      | Inr (Some se) \<Rightarrow> build_busy fromiso events (busy @ [se]))"

text \<open>
  The walk over the sorted busy windows, with the loop state (\<open>cursor\<close>, \<open>free_slots\<close>)
  passed along:
  \<^verbatim>\<open>
  for (busy_start, busy_end) in busy:
      if cursor + slot_delta <= busy_start:
          free_slots.append({"start": cursor, "end": cursor + slot_delta})
      if busy_end > cursor:
          cursor = busy_end
  \<close>
\<close>

fun walk ::
  "timedelta \<Rightarrow> (instant \<times> instant) list \<Rightarrow> instant \<Rightarrow> free_slot list
     \<Rightarrow> instant \<times> free_slot list" where
  "walk slot_delta [] cursor free_slots = (cursor, free_slots)"
| "walk slot_delta ((busy_start, busy_end) # busy) cursor free_slots =
     walk slot_delta busy
       (if busy_end > cursor then busy_end else cursor)
       (if cursor + slot_delta \<le> busy_start
        then free_slots @ [\<lparr>fs_start = cursor, fs_end = cursor + slot_delta\<rparr>]
        else free_slots)"

text \<open>Everything after the parsing loop: sort, walk, and the check after the last event.\<close>

definition gaps ::
  "instant \<Rightarrow> instant \<Rightarrow> timedelta \<Rightarrow> (instant \<times> instant) list \<Rightarrow> free_slot list" where
  "gaps day_start day_end slot_delta busy =
     (case walk slot_delta (sort busy) day_start [] of
        (cursor, free_slots) \<Rightarrow>
          if cursor + slot_delta \<le> day_end
          then free_slots @ [\<lparr>fs_start = cursor, fs_end = cursor + slot_delta\<rparr>]
          else free_slots)"

text \<open>
  \<open>datetime.replace(hour=h, minute=0, second=0)\<close> on the parsed date: \<open>ValueError\<close>
  unless \<open>h\<close> is in \<open>0..23\<close>. \<open>base\<close> is the parsed date at 00:00:00.
\<close>

definition replace_hour :: "instant \<Rightarrow> int \<Rightarrow> exn + instant" where
  "replace_hour base hour =
     (if 0 \<le> hour \<and> hour \<le> 23 then Inr (base + hour * 3600000000) else Inl ValueError)"

definition minutes :: "int \<Rightarrow> timedelta" where
  "minutes n = n * 60000000"

text \<open>
  \<open>find_free_slots\<close>. \<open>day0\<close> stands for \<open>datetime.fromisoformat(date)\<close> with the time
  of day cleared (\<open>None\<close>: \<open>ValueError\<close>); \<open>events\<close> is what
  \<open>get_events(date, date, calendar_id)\<close> does: the provider's exception or its items.
\<close>

definition find_free_slots ::
  "(string \<Rightarrow> exn + instant) \<Rightarrow> (string \<Rightarrow> instant option) \<Rightarrow> exn + gcal_event list
     \<Rightarrow> string \<Rightarrow> int \<Rightarrow> int \<Rightarrow> int \<Rightarrow> exn + free_slot list" where
  "find_free_slots fromiso day0 events date duration_minutes earliest_hour latest_hour =
     (case day0 date of
        None \<Rightarrow> Inl ValueError
      | Some base \<Rightarrow>
     (case replace_hour base earliest_hour of
        Inl x \<Rightarrow> Inl x
      | Inr day_start \<Rightarrow>
     (case replace_hour base latest_hour of
        Inl x \<Rightarrow> Inl x
      | Inr day_end \<Rightarrow>
     (case events of
        Inl x \<Rightarrow> Inl x
      | Inr evs \<Rightarrow>
     (case build_busy fromiso evs [] of
        Inl x \<Rightarrow> Inl x
      | Inr busy \<Rightarrow> Inr (gaps day_start day_end (minutes duration_minutes) busy))))))"

text \<open>
  The overlap test of the interval model: two intervals overlap when each starts before
  the other ends.
\<close>

definition overlap :: "instant \<times> instant \<Rightarrow> instant \<times> instant \<Rightarrow> bool" where
  "overlap a b = (fst a < snd b \<and> fst b < snd a)"

definition span :: "free_slot \<Rightarrow> instant \<times> instant" where
  "span s = (fs_start s, fs_end s)"

fun pairwise_disjoint :: "free_slot list \<Rightarrow> bool" where
  "pairwise_disjoint [] = True"
| "pairwise_disjoint (s # ss) =
     (list_all (\<lambda>t. \<not> overlap (span s) (span t)) ss \<and> pairwise_disjoint ss)"

text \<open>Fixtures for the worked examples: clock readings on the target day and a parser
  for the handful of strings the examples use. One string is an ISO date whose conversion
  to the zone overflows; any other string is not an ISO date.\<close>

definition hm :: "int \<Rightarrow> int \<Rightarrow> instant" where
  "hm h m = (h * 60 + m) * 60000000"

definition clock_table :: "(string \<times> instant) list" where
  "clock_table =
     [(''07:00'', hm 7 0), (''08:00'', hm 8 0), (''09:00'', hm 9 0), (''09:30'', hm 9 30),
      (''10:00'', hm 10 0), (''10:05'', hm 10 5), (''11:00'', hm 11 0), (''11:30'', hm 11 30),
      (''12:00'', hm 12 0), (''15:00'', hm 15 0), (''19:30'', hm 19 30), (''21:00'', hm 21 0),
      (''22:00'', hm 22 0)]"

definition clock :: "string \<Rightarrow> exn + instant" where
  "clock s =
     (if s = ''0001-01-01T00:00:00+14:00'' then Inl OverflowError
      else case map_of clock_table s of None \<Rightarrow> Inl ValueError | Some t \<Rightarrow> Inr t)"

definition midnight :: "string \<Rightarrow> instant option" where
  "midnight = map_of [(''2026-02-17'', 0)]"

definition timed :: "string \<Rightarrow> string \<Rightarrow> string \<Rightarrow> string \<Rightarrow> gcal_event" where
  "timed i title s e =
     \<lparr>ev_start = Some \<lparr>gt_dateTime = Some s, gt_date = None\<rparr>,
      ev_end = Some \<lparr>gt_dateTime = Some e, gt_date = None\<rparr>,
      ev_summary = Some title, ev_id = i\<rparr>"

definition demo_evs :: "gcal_event list" where
  "demo_evs =
     [timed ''e3'' ''C'' ''10:00'' ''12:00'', timed ''e1'' ''A'' ''09:00'' ''11:00'',
      timed ''e2'' ''B'' ''15:00'' ''not a date'']"

text \<open>Three items the parsing loop cannot skip: no start string at all, a start whose
  conversion overflows, and no \<open>end\<close> key.\<close>

definition no_start_string :: gcal_event where
  "no_start_string =
     \<lparr>ev_start = Some \<lparr>gt_dateTime = None, gt_date = None\<rparr>,
      ev_end = Some \<lparr>gt_dateTime = Some ''11:00'', gt_date = None\<rparr>,
      ev_summary = Some ''X'', ev_id = ''x1''\<rparr>"

definition overflowing_start :: gcal_event where
  "overflowing_start = timed ''x2'' ''Y'' ''0001-01-01T00:00:00+14:00'' ''11:00''"

definition no_end_key :: gcal_event where
  "no_end_key =
     \<lparr>ev_start = Some \<lparr>gt_dateTime = Some ''10:00'', gt_date = None\<rparr>,
      ev_end = None, ev_summary = Some ''Z'', ev_id = ''x3''\<rparr>"

section \<open>Conflict detector (tools/schedule.py)\<close>

text \<open>
  A parsed event is the tuple \<open>(s, e, summary, id)\<close>; \<open>parsed.sort()\<close> orders these
  tuples lexicographically (strings by code point).
\<close>

type_synonym parsed_event = "instant \<times> instant \<times> string \<times> string"

definition p_start :: "parsed_event \<Rightarrow> instant" where
  "p_start p = fst p"

definition p_end :: "parsed_event \<Rightarrow> instant" where
  "p_end p = fst (snd p)"

definition p_title :: "parsed_event \<Rightarrow> string" where
  "p_title p = fst (snd (snd p))"

text \<open>\<open>ev.get("summary", "(no title)")\<close>\<close>

definition summary_or_default :: "gcal_event \<Rightarrow> string" where
  "summary_or_default ev = (case ev_summary ev of None \<Rightarrow> ''(no title)'' | Some t \<Rightarrow> t)"

fun build_parsed ::
  "(string \<Rightarrow> exn + instant) \<Rightarrow> gcal_event list \<Rightarrow> parsed_event list
     \<Rightarrow> exn + parsed_event list" where
  "build_parsed fromiso [] parsed = Inr parsed"
| "build_parsed fromiso (ev # events) parsed =
     (case parse_interval fromiso ev of
        Inl x \<Rightarrow> Inl x
      | Inr None \<Rightarrow> build_parsed fromiso events parsed
      | Inr (Some (s, e)) \<Rightarrow>
          build_parsed fromiso events (parsed @ [(s, e, summary_or_default ev, ev_id ev)]))"

text \<open>
  The entries of the three result lists. The numbers \<open>gap_minutes\<close> and
  \<open>duration_hours\<close> are floats, \<open>round(td.total_seconds() / k, 1)\<close>: the parameter
  \<open>rnd td k\<close> stands for that expression (float division and Python's \<open>round\<close>),
  its result type \<open>'f\<close> for the float. Instants are kept as they are; the source
  renders them with \<open>isoformat()\<close>.
\<close>

record overlap_entry =
  ov_event_1 :: string
  ov_event_2 :: string
  ov_overlap_start :: instant
  ov_overlap_end :: instant

record 'f tight_entry =
  tt_event_1 :: string
  tt_event_1_end :: instant
  tt_event_2 :: string
  tt_event_2_start :: instant
  tt_gap_minutes :: 'f

record 'f long_entry =
  lg_event :: string
  lg_start :: instant
  lg_end :: instant
  lg_duration_hours :: 'f

record 'f findings =
  overlaps :: "overlap_entry list"
  tight_transitions :: "'f tight_entry list"
  long_events :: "'f long_entry list"

text \<open>
  The scan \<open>for i, (s1, e1, title1, id1) in enumerate(parsed)\<close>: the rest of the list
  after the current element starts with \<open>parsed[i + 1]\<close>, and is empty exactly when
  \<open>i + 1 >= len(parsed)\<close>. The thresholds \<open>4 * 3600\<close> and \<open>600\<close> seconds are
  compared on microseconds; \<open>timedelta\<close> values are whole microseconds and both
  thresholds are exact floats, so the float comparison of the source agrees.
\<close>

fun scan :: "(timedelta \<Rightarrow> int \<Rightarrow> 'f) \<Rightarrow> parsed_event list \<Rightarrow> 'f findings \<Rightarrow> 'f findings" where
  "scan rnd [] acc = acc"
| "scan rnd ((s1, e1, title1, id1) # rest) acc =
     (let acc1 =
        (if e1 - s1 > 14400000000
         then acc\<lparr>long_events := long_events acc @
                [\<lparr>lg_event = title1, lg_start = s1, lg_end = e1,
                  lg_duration_hours = rnd (e1 - s1) 3600\<rparr>]\<rparr>
         else acc)
      in case rest of
           [] \<Rightarrow> acc1
         | (s2, e2, title2, id2) # _ \<Rightarrow>
             scan rnd rest
               (if s2 < e1
                then acc1\<lparr>overlaps := overlaps acc1 @
                       [\<lparr>ov_event_1 = title1, ov_event_2 = title2,
                         ov_overlap_start = s2, ov_overlap_end = min e1 e2\<rparr>]\<rparr>
                else if s2 - e1 < 600000000
                then acc1\<lparr>tight_transitions := tight_transitions acc1 @
                       [\<lparr>tt_event_1 = title1, tt_event_1_end = e1, tt_event_2 = title2,
                         tt_event_2_start = s2, tt_gap_minutes = rnd (s2 - e1) 60\<rparr>]\<rparr>
                else acc1))"

text \<open>The JSON object of a successful call.\<close>

record 'f conflict_report =
  cr_date_range :: "string \<times> string"
  cr_overlaps :: "overlap_entry list"
  cr_tight_transitions :: "'f tight_entry list"
  cr_long_events :: "'f long_entry list"
  cr_all_clear :: bool

text \<open>
  \<open>schedule_find_conflicts\<close>: the whole body is inside \<open>try\<close>, and any exception
  becomes the returned string \<open>f"Error checking for conflicts: {e}"\<close> (\<open>Inl\<close>);
  \<open>str_of\<close> stands for Python's rendering of an exception in an f-string.
\<close>

definition schedule_find_conflicts ::
  "(timedelta \<Rightarrow> int \<Rightarrow> 'f) \<Rightarrow> (exn \<Rightarrow> string) \<Rightarrow> (string \<Rightarrow> exn + instant)
     \<Rightarrow> exn + gcal_event list \<Rightarrow> string \<Rightarrow> string \<Rightarrow> string + 'f conflict_report" where
  "schedule_find_conflicts rnd str_of fromiso events start_date end_date =
     (case events of
        Inl x \<Rightarrow> Inl (''Error checking for conflicts: '' @ str_of x)
      | Inr evs \<Rightarrow>
     (case build_parsed fromiso evs [] of
        Inl x \<Rightarrow> Inl (''Error checking for conflicts: '' @ str_of x)
      | Inr parsed \<Rightarrow>
          (let found = scan rnd (sort parsed)
                 \<lparr>overlaps = [], tight_transitions = [], long_events = []\<rparr>
           in Inr \<lparr>cr_date_range = (start_date, end_date),
                   cr_overlaps = overlaps found,
                   cr_tight_transitions = tight_transitions found,
                   cr_long_events = long_events found,
                   cr_all_clear = (overlaps found = [] \<and> tight_transitions found = [])\<rparr>)))"

text \<open>
  The detector in the words of its description: the adjacent pairs of the sorted list,
  the pairs that overlap, the pairs in tight transition, the events that are long, and
  the entry reported for each.
\<close>

definition adjacent :: "parsed_event list \<Rightarrow> (parsed_event \<times> parsed_event) list" where
  "adjacent ps = zip ps (tl ps)"

definition is_overlap :: "parsed_event \<times> parsed_event \<Rightarrow> bool" where
  "is_overlap cn = (p_start (snd cn) < p_end (fst cn))"

definition is_tight :: "parsed_event \<times> parsed_event \<Rightarrow> bool" where
  "is_tight cn =
     (\<not> p_start (snd cn) < p_end (fst cn) \<and> p_start (snd cn) - p_end (fst cn) < minutes 10)"

definition is_long :: "parsed_event \<Rightarrow> bool" where
  "is_long p = (p_end p - p_start p > minutes (4 * 60))"

definition overlap_of :: "parsed_event \<times> parsed_event \<Rightarrow> overlap_entry" where
  "overlap_of cn =
     \<lparr>ov_event_1 = p_title (fst cn), ov_event_2 = p_title (snd cn),
      ov_overlap_start = p_start (snd cn),
      ov_overlap_end = min (p_end (fst cn)) (p_end (snd cn))\<rparr>"

definition tight_of ::
  "(timedelta \<Rightarrow> int \<Rightarrow> 'f) \<Rightarrow> parsed_event \<times> parsed_event \<Rightarrow> 'f tight_entry" where
  "tight_of rnd cn =
     \<lparr>tt_event_1 = p_title (fst cn), tt_event_1_end = p_end (fst cn),
      tt_event_2 = p_title (snd cn), tt_event_2_start = p_start (snd cn),
      tt_gap_minutes = rnd (p_start (snd cn) - p_end (fst cn)) 60\<rparr>"

definition long_of :: "(timedelta \<Rightarrow> int \<Rightarrow> 'f) \<Rightarrow> parsed_event \<Rightarrow> 'f long_entry" where
  "long_of rnd p =
     \<lparr>lg_event = p_title p, lg_start = p_start p, lg_end = p_end p,
      lg_duration_hours = rnd (p_end p - p_start p) 3600\<rparr>"

text \<open>
  An event is well formed when both of its times parse; \<open>window_of\<close> is then its
  window and \<open>entry_of\<close> its tuple in the conflict detector. \<open>first_abort\<close> is the
  exception of the first item, if any, whose parsing raises something the handler does
  not catch.
\<close>

definition window_of ::
  "(string \<Rightarrow> exn + instant) \<Rightarrow> gcal_event \<Rightarrow> (instant \<times> instant) option" where
  "window_of fromiso ev = (case parse_interval fromiso ev of Inl x \<Rightarrow> None | Inr w \<Rightarrow> w)"

definition well_formed :: "(string \<Rightarrow> exn + instant) \<Rightarrow> gcal_event \<Rightarrow> bool" where
  "well_formed fromiso ev = (window_of fromiso ev \<noteq> None)"

definition entry_of :: "(string \<Rightarrow> exn + instant) \<Rightarrow> gcal_event \<Rightarrow> parsed_event option" where
  "entry_of fromiso ev =
     (case window_of fromiso ev of
        None \<Rightarrow> None
      | Some (s, e) \<Rightarrow> Some (s, e, summary_or_default ev, ev_id ev))"

fun first_abort :: "(string \<Rightarrow> exn + instant) \<Rightarrow> gcal_event list \<Rightarrow> exn option" where
  "first_abort fromiso [] = None"
| "first_abort fromiso (ev # evs) =
     (case parse_interval fromiso ev of
        Inl x \<Rightarrow> Some x
      | Inr w \<Rightarrow> first_abort fromiso evs)"

text \<open>Fixture: a stand-in for the float rounding, in tenths, half away from zero.\<close>

definition tenths :: "timedelta \<Rightarrow> int \<Rightarrow> int" where
  "tenths td k = (td * 10 + k * 500000) div (k * 1000000)"

definition render :: "exn \<Rightarrow> string" where
  "render x =
     (case x of
        ValueError \<Rightarrow> ''ValueError''
      | TypeError \<Rightarrow> ''TypeError''
      | KeyError \<Rightarrow> ''KeyError''
      | OverflowError \<Rightarrow> ''OverflowError''
      | EnvironmentError \<Rightarrow> ''EnvironmentError''
      | HttpError code \<Rightarrow> ''HttpError''
      | APIResponseError code message \<Rightarrow> message
      | OtherError message \<Rightarrow> message)"

definition abcd_evs :: "gcal_event list" where
  "abcd_evs =
     [timed ''e3'' ''C'' ''11:00'' ''11:30'', timed ''e1'' ''A'' ''09:00'' ''12:00'',
      timed ''e4'' ''D'' ''11:30'' ''12:00'', timed ''e2'' ''B'' ''09:30'' ''10:00'']"

section \<open>Overdue reconciler (clients/notion.py)\<close>

text \<open>
  A page of the Tasks database as the provider returns it: its id and URL, and of its
  properties the plain-text pieces of "Task name", the name selected in "Task Status"
  and the start of "Due Date" (the last two possibly absent).
\<close>

record notion_page =
  pg_id :: string
  pg_url :: string
  pg_task_name :: "string list"
  pg_task_status :: "string option"
  pg_due_date :: "string option"

text \<open>The simplified task dictionary, and \<open>_simplify_task\<close>.\<close>

record task =
  notion_id :: string
  task_url :: string
  task_name :: string
  task_status :: "string option"
  due_date :: "string option"

definition simplify_task :: "notion_page \<Rightarrow> task" where
  "simplify_task page =
     \<lparr>notion_id = pg_id page, task_url = pg_url page, task_name = concat (pg_task_name page),
      task_status = pg_task_status page, due_date = pg_due_date page\<rparr>"

text \<open>
  The filters \<open>get_tasks\<close> builds, and the \<open>filter\<close> argument of the query: absent
  for no filter, the filter itself for one, \<open>{"and": filters}\<close> for several.
\<close>

datatype task_filter = StatusEquals string | DueOnOrBefore string | DueOnOrAfter string

datatype filter_arg = NoFilter | Single task_filter | And "task_filter list"

text \<open>
  The response of one call of \<open>data_sources.query\<close>: a page of results, whether more
  results remain, and the cursor to fetch them with.
\<close>

record query_response =
  qr_results :: "notion_page list"
  qr_has_more :: bool
  qr_next_cursor :: "string option"

text \<open>
  The Structured-Record Provider as the client sees it: \<open>_client()\<close> may raise (no
  token), and a query of the Tasks database, sorted by due date ascending, raises or
  returns a response.
\<close>

record notion =
  token_error :: "exn option"
  query_tasks :: "filter_arg \<Rightarrow> exn + query_response"

text \<open>
  \<open>get_tasks\<close>: one call of the query, of which only \<open>response["results"]\<close> is read.
\<close>

definition get_tasks ::
  "notion \<Rightarrow> string option \<Rightarrow> string option \<Rightarrow> string option \<Rightarrow> exn + task list" where
  "get_tasks n status due_before due_after =
     (case token_error n of
        Some x \<Rightarrow> Inl x
      | None \<Rightarrow>
          (let filters =
                 (case truthy status of None \<Rightarrow> [] | Some s \<Rightarrow> [StatusEquals s])
                 @ (case truthy due_before of None \<Rightarrow> [] | Some d \<Rightarrow> [DueOnOrBefore d])
                 @ (case truthy due_after of None \<Rightarrow> [] | Some d \<Rightarrow> [DueOnOrAfter d])
           in case query_tasks n
                     (if length filters = 1 then Single (filters ! 0)
                      else if length filters > 1 then And filters
                      else NoFilter) of
                Inl x \<Rightarrow> Inl x
              | Inr response \<Rightarrow> Inr (map simplify_task (qr_results response))))"

text \<open>
  The deduplication loop, with its state (\<open>seen\<close>, \<open>combined\<close>) passed along:
  \<^verbatim>\<open>
  for task in overdue_by_status + overdue_by_date:
      if task["notion_id"] not in seen:
          seen.add(task["notion_id"])
          combined.append(task)
  \<close>
\<close>

fun dedup :: "task list \<Rightarrow> string set \<Rightarrow> task list \<Rightarrow> task list" where
  "dedup [] seen combined = combined"
| "dedup (t # ts) seen combined =
     (if notion_id t \<notin> seen
      then dedup ts (insert (notion_id t) seen) (combined @ [t])
      else dedup ts seen combined)"

text \<open>
  The condition of the list comprehension:
  \<^verbatim>\<open>t["status"] not in ("Done", "Archived", "Overdue") and t["due_date"]
  and t["due_date"] < today\<close>
  on ISO date strings, compared as strings; \<open>None\<close> and the empty string are falsy.
\<close>

definition keep_by_date :: "string \<Rightarrow> task \<Rightarrow> bool" where
  "keep_by_date today t =
     (task_status t \<noteq> Some ''Done'' \<and> task_status t \<noteq> Some ''Archived''
      \<and> task_status t \<noteq> Some ''Overdue''
      \<and> (case due_date t of None \<Rightarrow> False | Some d \<Rightarrow> d \<noteq> [] \<and> d < today))"

text \<open>
  \<open>get_overdue_tasks\<close>; \<open>today\<close> is \<open>datetime.now().date().isoformat()\<close>.
\<close>

definition get_overdue_tasks :: "notion \<Rightarrow> string \<Rightarrow> exn + task list" where
  "get_overdue_tasks n today =
     (case get_tasks n (Some ''Overdue'') None None of
        Inl x \<Rightarrow> Inl x
      | Inr overdue_by_status \<Rightarrow>
     (case get_tasks n None (Some today) None of
        Inl x \<Rightarrow> Inl x
      | Inr overdue_by_date \<Rightarrow>
          Inr (dedup (overdue_by_status @ filter (keep_by_date today) overdue_by_date) {} [])))"

text \<open>
  The two detection paths in the words of their description: (a) the status is the
  literal "Overdue"; (b) the due date is strictly before today and the status is none of
  "Done", "Archived", "Overdue".
\<close>

definition flagged_overdue :: "task \<Rightarrow> bool" where
  "flagged_overdue t = (task_status t = Some ''Overdue'')"

definition due_before_today :: "string \<Rightarrow> task \<Rightarrow> bool" where
  "due_before_today today t =
     (case due_date t of None \<Rightarrow> False | Some d \<Rightarrow> d \<noteq> [] \<and> d < today)"

definition past_due_open :: "string \<Rightarrow> task \<Rightarrow> bool" where
  "past_due_open today t =
     (due_before_today today t
      \<and> task_status t \<notin> {Some ''Done'', Some ''Archived'', Some ''Overdue''})"

text \<open>Each record the first time its id is seen, given the ids seen before.\<close>

fun first_seen :: "string list \<Rightarrow> task list \<Rightarrow> task list" where
  "first_seen seen [] = []"
| "first_seen seen (t # ts) =
     (if notion_id t \<in> set seen then first_seen seen ts
      else t # first_seen (notion_id t # seen) ts)"

text \<open>
  Fixture: a provider over a database of pages listed by ascending due date. It answers
  a query with the first \<open>page_size\<close> pages that satisfy the filter, and says whether
  more remain. (The provider caps a response at 100 results.)
\<close>

definition filter_holds :: "task_filter \<Rightarrow> notion_page \<Rightarrow> bool" where
  "filter_holds f page =
     (case f of
        StatusEquals s \<Rightarrow> pg_task_status page = Some s
      | DueOnOrBefore d \<Rightarrow> (case pg_due_date page of None \<Rightarrow> False | Some x \<Rightarrow> x \<le> d)
      | DueOnOrAfter d \<Rightarrow> (case pg_due_date page of None \<Rightarrow> False | Some x \<Rightarrow> d \<le> x))"

definition hits :: "filter_arg \<Rightarrow> notion_page \<Rightarrow> bool" where
  "hits arg page =
     (case arg of
        NoFilter \<Rightarrow> True
      | Single f \<Rightarrow> filter_holds f page
      | And fs \<Rightarrow> list_all (\<lambda>f. filter_holds f page) fs)"

definition paged_answer :: "nat \<Rightarrow> notion_page list \<Rightarrow> filter_arg \<Rightarrow> query_response" where
  "paged_answer page_size db arg =
     \<lparr>qr_results = take page_size (filter (hits arg) db),
      qr_has_more = (page_size < length (filter (hits arg) db)),
      qr_next_cursor =
        (if page_size < length (filter (hits arg) db) then Some ''cursor'' else None)\<rparr>"

definition paged_notion :: "nat \<Rightarrow> notion_page list \<Rightarrow> notion" where
  "paged_notion page_size db =
     \<lparr>token_error = None, query_tasks = (\<lambda>arg. Inr (paged_answer page_size db arg))\<rparr>"

definition mk_page :: "string \<Rightarrow> string option \<Rightarrow> string option \<Rightarrow> notion_page" where
  "mk_page i st due =
     \<lparr>pg_id = i, pg_url = ''https://notion.so/'' @ i, pg_task_name = [''task '', i],
      pg_task_status = st, pg_due_date = due\<rparr>"

definition mk_task :: "string \<Rightarrow> string option \<Rightarrow> string option \<Rightarrow> task" where
  "mk_task i st due = simplify_task (mk_page i st due)"

text \<open>A small database: everything fits the first page.\<close>

definition small_db :: "notion_page list" where
  "small_db =
     [mk_page ''t1'' (Some ''Done'') (Some ''2026-02-01''),
      mk_page ''t4'' (Some ''Overdue'') (Some ''2026-02-10''),
      mk_page ''t2'' (Some ''Not started'') (Some ''2026-02-16''),
      mk_page ''t3'' (Some ''Overdue'') (Some ''2026-03-01'')]"

text \<open>
  A database with history: a hundred finished tasks, due on 2026-01-01, and after them
  one task not started and due on 2026-02-16.
\<close>

definition done_page :: "nat \<Rightarrow> notion_page" where
  "done_page i = mk_page (''done-'' @ str_nat i) (Some ''Done'') (Some ''2026-01-01'')"

definition late_page :: notion_page where
  "late_page = mk_page ''late'' (Some ''Not started'') (Some ''2026-02-16'')"

definition crowded_db :: "notion_page list" where
  "crowded_db = map done_page [0..<100] @ [late_page]"

section \<open>Error translation and the tool boundary\<close>

text \<open>The em dash of the two messages that have one, as the bytes of its UTF-8 encoding.\<close>

definition em_dash :: string where
  "em_dash = [CHR 0xE2, CHR 0x80, CHR 0x94]"

text \<open>
  \<open>_handle_http_error\<close> (clients/gcal.py) on an \<open>HttpError\<close> with status \<open>code\<close>, and
  \<open>_handle_notion_error\<close> (clients/notion.py) on an \<open>APIResponseError\<close> with the given
  code and message. \<open>str_of\<close> is Python's rendering of an exception in an f-string.
\<close>

definition handle_http_error :: "(exn \<Rightarrow> string) \<Rightarrow> int \<Rightarrow> string" where
  "handle_http_error str_of code =
     (if code = 404 then ''Error: Calendar event not found. Check the event ID.''
      else if code = 403 then
        ''Error: Permission denied. Ensure the Calendar API is enabled and OAuth scopes include calendar write.''
      else if code = 409 then ''Error: Conflict '' @ em_dash @ '' this event may already exist.''
      else if code = 429 then
        ''Error: Google Calendar API rate limit hit. Wait a moment and retry.''
      else ''Error: Google Calendar API error '' @ str_int code @ '': ''
             @ str_of (HttpError code))"

definition handle_notion_error :: "string \<Rightarrow> string \<Rightarrow> string" where
  "handle_notion_error code message =
     (if code = ''object_not_found'' then
        ''Error: Notion page or database not found. Check that the integration has access.''
      else if code = ''unauthorized'' then ''Error: Notion token is invalid or expired.''
      else if code = ''validation_error'' then
        ''Error: Invalid data sent to Notion '' @ em_dash @ '' '' @ message
      else if code = ''rate_limited'' then
        ''Error: Notion rate limit hit. Wait a moment and retry.''
      else ''Error: Notion API error ('' @ code @ ''): '' @ message)"

text \<open>
  Two tools, one per provider. Each body is inside \<open>try\<close> with
  \<open>except Exception as e: return f"Error ...: {e}"\<close>. \<open>events\<close> is what
  \<open>get_events(...)\<close> does, \<open>n\<close> the Notion provider; \<open>dumps\<close> stands for the JSON
  rendering of the payload.
\<close>

definition gcal_get_events ::
  "(exn \<Rightarrow> string) \<Rightarrow> (gcal_event list \<Rightarrow> string) \<Rightarrow> exn + gcal_event list \<Rightarrow> string" where
  "gcal_get_events str_of dumps events =
     (case events of
        Inl x \<Rightarrow> ''Error fetching events: '' @ str_of x
      | Inr evs \<Rightarrow> dumps evs)"

definition notion_get_overdue_tasks ::
  "(exn \<Rightarrow> string) \<Rightarrow> (task list \<Rightarrow> string) \<Rightarrow> notion \<Rightarrow> string \<Rightarrow> string" where
  "notion_get_overdue_tasks str_of dumps n today =
     (case get_overdue_tasks n today of
        Inl x \<Rightarrow> ''Error fetching overdue tasks: '' @ str_of x
      | Inr tasks \<Rightarrow> dumps tasks)"

section \<open>Scheduling a task block (tools/schedule.py)\<close>

text \<open>The body sent to \<open>events().insert\<close>; start and end are (dateTime, timeZone).\<close>

record event_body =
  eb_summary :: string
  eb_start :: "string \<times> string"
  eb_end :: "string \<times> string"
  eb_description :: "string option"
  eb_location :: "string option"

text \<open>
  The state of the two providers: the events stored by the Calendar Provider, each with
  the calendar it is in, and the task records of the Structured-Record Provider.
\<close>

record world =
  calendars :: "(string \<times> event_body) list"
  notion_tasks :: "task list"

text \<open>
  What the Calendar Provider does during one request: \<open>get_calendar_service()\<close> may
  raise, \<open>insert(...).execute()\<close> may raise, and a created event gets an id.
\<close>

record provider =
  service_error :: "exn option"
  insert_error :: "exn option"
  assigned_id :: string

text \<open>
  The provider's insert, an external service: on success the event is stored and
  returned with its id; when the call raises, nothing is stored.
\<close>

definition events_insert ::
  "provider \<Rightarrow> string \<Rightarrow> event_body \<Rightarrow> world \<Rightarrow> (exn + string \<times> event_body) \<times> world" where
  "events_insert p calendar_id body w =
     (case insert_error p of
        Some x \<Rightarrow> (Inl x, w)
      | None \<Rightarrow>
          (Inr (assigned_id p, body), w\<lparr>calendars := calendars w @ [(calendar_id, body)]\<rparr>))"

text \<open>\<open>if description:\<close> and \<open>if location:\<close> keep a non-empty string only
  (\<open>truthy\<close>).\<close>

definition create_event ::
  "provider \<Rightarrow> string \<Rightarrow> string \<Rightarrow> string \<Rightarrow> string \<Rightarrow> string option \<Rightarrow> string option
     \<Rightarrow> string \<Rightarrow> world \<Rightarrow> (exn + string \<times> event_body) \<times> world" where
  "create_event p tz title start end_time description location calendar_id w =
     (case service_error p of
        Some x \<Rightarrow> (Inl x, w)
      | None \<Rightarrow>
          events_insert p calendar_id
            \<lparr>eb_summary = title, eb_start = (start, tz), eb_end = (end_time, tz),
             eb_description = truthy description, eb_location = truthy location\<rparr> w)"

record task_block_input =
  stb_task_notion_id :: string
  stb_task_name :: string
  stb_task_url :: string
  stb_start :: string
  stb_end :: string
  stb_calendar_id :: string

text \<open>\<open>_slim_event\<close> of the created event, and the JSON object of a successful call.\<close>

record slim_event =
  se_id :: string
  se_title :: string
  se_start :: string
  se_end :: string
  se_location :: "string option"

record task_block_response =
  tb_message :: string
  tb_event :: slim_event
  tb_notion_task_url :: string

text \<open>The prefix of the title, as the bytes of the source file, ending with a space.\<close>

definition title_prefix :: string where
  "title_prefix =
     [CHR 0xC4, CHR 0x9F, CHR 0xC5, CHR 0xB8, CHR 0xE2, CHR 0x80, CHR 0x9D, CHR 0xC2, CHR 0xA8,
      CHR '' '']"

definition block_description :: "string \<Rightarrow> string" where
  "block_description url = ''Work block for Notion task:'' @ [CHR 0x0A] @ url"

definition schedule_task_block ::
  "(exn \<Rightarrow> string) \<Rightarrow> provider \<Rightarrow> string \<Rightarrow> task_block_input \<Rightarrow> world
     \<Rightarrow> (string + task_block_response) \<times> world" where
  "schedule_task_block str_of p tz params w =
     (case create_event p tz (title_prefix @ stb_task_name params) (stb_start params)
             (stb_end params) (Some (block_description (stb_task_url params))) None
             (stb_calendar_id params) w of
        (Inl x, w') \<Rightarrow> (Inl (''Error scheduling task block: '' @ str_of x), w')
      | (Inr (event_id, body), w') \<Rightarrow>
          (Inr \<lparr>tb_message = ''Work block created on Google Calendar.'',
                tb_event =
                  \<lparr>se_id = event_id, se_title = eb_summary body,
                   se_start = fst (eb_start body), se_end = fst (eb_end body),
                   se_location = eb_location body\<rparr>,
                tb_notion_task_url = stb_task_url params\<rparr>, w'))"

text \<open>Fixtures: a request, a state with one task, and two providers.\<close>

definition demo_block :: task_block_input where
  "demo_block =
     \<lparr>stb_task_notion_id = ''t2'', stb_task_name = ''Write report'',
      stb_task_url = ''https://notion.so/t2'', stb_start = ''2026-02-17T14:00:00'',
      stb_end = ''2026-02-17T15:00:00'', stb_calendar_id = ''primary''\<rparr>"

definition demo_world :: world where
  "demo_world =
     \<lparr>calendars = [],
      notion_tasks = [mk_task ''t2'' (Some ''Not started'') (Some ''2026-02-16'')]\<rparr>"

definition provider_ok :: provider where
  "provider_ok = \<lparr>service_error = None, insert_error = None, assigned_id = ''ev1''\<rparr>"

definition provider_denied :: provider where
  "provider_denied =
     \<lparr>service_error = None, insert_error = Some (HttpError 403), assigned_id = ''ev1''\<rparr>"

section \<open>Input validation of the find-free-slots tool (tools/calendar.py)\<close>

text \<open>
  The arguments of a call as they arrive, each field present or not, with the names of
  any fields the model does not declare.
\<close>

record find_free_slots_args =
  arg_date :: "string option"
  arg_duration_minutes :: "int option"
  arg_earliest_hour :: "int option"
  arg_latest_hour :: "int option"
  arg_calendar_id :: "string option"
  arg_extra :: "string list"

record FindFreeSlotsInput =
  ffs_date :: string
  ffs_duration_minutes :: int
  ffs_earliest_hour :: int
  ffs_latest_hour :: int
  ffs_calendar_id :: string

definition or_default :: "'a option \<Rightarrow> 'a \<Rightarrow> 'a" where
  "or_default v d = (case v of None \<Rightarrow> d | Some x \<Rightarrow> x)"

text \<open>
  The declaration of \<open>FindFreeSlotsInput\<close>: \<open>extra="forbid"\<close>; \<open>date\<close> and
  \<open>duration_minutes\<close> required, \<open>duration_minutes\<close> with \<open>ge=15, le=480\<close>;
  \<open>earliest_hour\<close> default 8 with \<open>ge=0, le=23\<close>; \<open>latest_hour\<close> default 20 with
  \<open>ge=1, le=24\<close>; \<open>calendar_id\<close> default "primary". \<open>None\<close> is a validation error.
\<close>

definition validate_FindFreeSlotsInput :: "find_free_slots_args \<Rightarrow> FindFreeSlotsInput option" where
  "validate_FindFreeSlotsInput a =
     (if arg_extra a \<noteq> [] then None
      else case arg_date a of
        None \<Rightarrow> None
      | Some date \<Rightarrow>
     (case arg_duration_minutes a of
        None \<Rightarrow> None
      | Some duration_minutes \<Rightarrow>
          (let earliest_hour = or_default (arg_earliest_hour a) 8;
               latest_hour = or_default (arg_latest_hour a) 20
           in if 15 \<le> duration_minutes \<and> duration_minutes \<le> 480
                 \<and> 0 \<le> earliest_hour \<and> earliest_hour \<le> 23
                 \<and> 1 \<le> latest_hour \<and> latest_hour \<le> 24
              then Some \<lparr>ffs_date = date, ffs_duration_minutes = duration_minutes,
                         ffs_earliest_hour = earliest_hour, ffs_latest_hour = latest_hour,
                         ffs_calendar_id = or_default (arg_calendar_id a) ''primary''\<rparr>
              else None)))"

text \<open>
  The calls a request makes to the Calendar Provider. \<open>find_free_slots\<close> reaches
  \<open>get_events\<close>, its only provider call, once \<open>day_start\<close> and \<open>day_end\<close> are built.
\<close>

datatype provider_call = EventsList string string string

definition find_free_slots_calls ::
  "(string \<Rightarrow> instant option) \<Rightarrow> string \<Rightarrow> int \<Rightarrow> int \<Rightarrow> string \<Rightarrow> provider_call list" where
  "find_free_slots_calls day0 date earliest_hour latest_hour calendar_id =
     (case day0 date of
        None \<Rightarrow> []
      | Some base \<Rightarrow>
     (case replace_hour base earliest_hour of
        Inl x \<Rightarrow> []
      | Inr day_start \<Rightarrow>
     (case replace_hour base latest_hour of
        Inl x \<Rightarrow> []
      | Inr day_end \<Rightarrow> [EventsList calendar_id date date])))"

text \<open>
  The tool function \<open>gcal_find_free_slots\<close> on validated parameters: its returned
  string and the provider calls made. \<open>get_events\<close> is the provider's answer to a call.
\<close>

definition gcal_find_free_slots ::
  "(exn \<Rightarrow> string) \<Rightarrow> (free_slot list \<Rightarrow> string) \<Rightarrow> (string \<Rightarrow> exn + instant)
     \<Rightarrow> (string \<Rightarrow> instant option) \<Rightarrow> (provider_call \<Rightarrow> exn + gcal_event list)
     \<Rightarrow> FindFreeSlotsInput \<Rightarrow> string \<times> provider_call list" where
  "gcal_find_free_slots str_of dumps fromiso day0 get_events params =
     ((case find_free_slots fromiso day0
              (get_events (EventsList (ffs_calendar_id params) (ffs_date params) (ffs_date params)))
              (ffs_date params) (ffs_duration_minutes params) (ffs_earliest_hour params)
              (ffs_latest_hour params) of
         Inl x \<Rightarrow> ''Error finding free slots: '' @ str_of x
       | Inr slots \<Rightarrow> dumps slots),
      find_free_slots_calls day0 (ffs_date params) (ffs_earliest_hour params)
        (ffs_latest_hour params) (ffs_calendar_id params))"

text \<open>
  A call of the tool through the server: the arguments are validated against the
  declared model first, and the tool function runs only on validated parameters. The
  validation itself belongs to the framework (pydantic under FastMCP), outside the
  repository; its outcome here is \<open>Rejected\<close>.
\<close>

datatype tool_outcome = Rejected | Returned string

definition call_gcal_find_free_slots ::
  "(exn \<Rightarrow> string) \<Rightarrow> (free_slot list \<Rightarrow> string) \<Rightarrow> (string \<Rightarrow> exn + instant)
     \<Rightarrow> (string \<Rightarrow> instant option) \<Rightarrow> (provider_call \<Rightarrow> exn + gcal_event list)
     \<Rightarrow> find_free_slots_args \<Rightarrow> tool_outcome \<times> provider_call list" where
  "call_gcal_find_free_slots str_of dumps fromiso day0 get_events a =
     (case validate_FindFreeSlotsInput a of
        None \<Rightarrow> (Rejected, [])
      | Some params \<Rightarrow>
          (case gcal_find_free_slots str_of dumps fromiso day0 get_events params of
             (text, calls) \<Rightarrow> (Returned text, calls)))"

definition demo_args :: "int \<Rightarrow> find_free_slots_args" where
  "demo_args n =
     \<lparr>arg_date = Some ''2026-02-17'', arg_duration_minutes = Some n,
      arg_earliest_hour = None, arg_latest_hour = None, arg_calendar_id = None,
      arg_extra = []\<rparr>"

section \<open>Properties of the free-slot finder\<close>

subsection \<open>The walk\<close>

text \<open>The slots already collected are only ever extended, and the cursor does not
  depend on them.\<close>

lemma walk_acc:
  "walk d busy c acc = (fst (walk d busy c []), acc @ snd (walk d busy c []))"
proof (induction busy arbitrary: c acc)
  case Nil
  show ?case by simp
next
  case (Cons w busy)
  obtain bs be where w: "w = (bs, be)" by (cases w)
  show ?case
    unfolding w walk.simps
    by (subst Cons.IH, subst (2 3) Cons.IH) simp
qed

lemma walk_Cons_slots:
  "snd (walk d ((bs, be) # busy) c []) =
     (if c + d \<le> bs then [\<lparr>fs_start = c, fs_end = c + d\<rparr>] else [])
       @ snd (walk d busy (if be > c then be else c) [])"
  by (simp add: walk_acc [of d busy _ "[_]"])

lemma walk_Cons_cursor:
  "fst (walk d ((bs, be) # busy) c acc) = fst (walk d busy (if be > c then be else c) [])"
  by (simp add: walk_acc [of d busy _ "_ @ _"] walk_acc [of d busy _ "acc"])

text \<open>The cursor only moves forward, and ends at or after the end of every window.\<close>

lemma walk_cursor_mono: "c \<le> fst (walk d busy c [])"
proof (induction busy arbitrary: c)
  case Nil
  show ?case by simp
next
  case (Cons w busy)
  obtain bs be where w: "w = (bs, be)" by (cases w)
  have "(if be > c then be else c) \<le> fst (walk d busy (if be > c then be else c) [])"
    by (rule Cons.IH)
  then show ?case unfolding w walk_Cons_cursor by (simp split: if_splits)
qed

lemma walk_cursor_ends: "w \<in> set busy \<Longrightarrow> snd w \<le> fst (walk d busy c [])"
proof (induction busy arbitrary: c)
  case Nil
  then show ?case by simp
next
  case (Cons v busy)
  obtain bs be where v: "v = (bs, be)" by (cases v)
  let ?c = "if be > c then be else c"
  show ?case
  proof (cases "w = v")
    case True
    have "?c \<le> fst (walk d busy ?c [])" by (rule walk_cursor_mono)
    then show ?thesis unfolding True v walk_Cons_cursor by (simp split: if_splits)
  next
    case False
    with Cons.prems have "w \<in> set busy" by simp
    then show ?thesis unfolding v walk_Cons_cursor by (rule Cons.IH)
  qed
qed

lemma walk_slot_shape:
  "s \<in> set (snd (walk d busy c [])) \<Longrightarrow>
     fs_end s = fs_start s + d \<and> c \<le> fs_start s \<and> fs_start s \<le> fst (walk d busy c [])"
proof (induction busy arbitrary: c)
  case Nil
  then show ?case by simp
next
  case (Cons v busy)
  obtain bs be where v: "v = (bs, be)" by (cases v)
  let ?c = "if be > c then be else c"
  have mono: "?c \<le> fst (walk d busy ?c [])" by (rule walk_cursor_mono)
  from Cons.prems consider
      (head) "s = \<lparr>fs_start = c, fs_end = c + d\<rparr>"
    | (tail) "s \<in> set (snd (walk d busy ?c []))"
    unfolding v walk_Cons_slots by (auto split: if_splits)
  then show ?case
  proof cases
    case head
    with mono show ?thesis unfolding v walk_Cons_cursor by (simp split: if_splits)
  next
    case tail
    from Cons.IH [OF tail] show ?thesis unfolding v walk_Cons_cursor by (simp split: if_splits)
  qed
qed

lemma walk_sorted: "sorted (map fs_start (snd (walk d busy c [])))"
proof (induction busy arbitrary: c)
  case Nil
  show ?case by simp
next
  case (Cons v busy)
  obtain bs be where v: "v = (bs, be)" by (cases v)
  let ?c = "if be > c then be else c"
  have later: "c \<le> fs_start s" if "s \<in> set (snd (walk d busy ?c []))" for s
    using walk_slot_shape [OF that] by (simp split: if_splits)
  show ?case
    unfolding v walk_Cons_slots using Cons.IH [of ?c] later by (auto simp: sorted_append)
qed

lemma walk_clear_of_busy:
  assumes "sorted (map fst busy)" and "s \<in> set (snd (walk d busy c []))" and "w \<in> set busy"
  shows "\<not> overlap (span s) w"
  using assms
proof (induction busy arbitrary: c)
  case Nil
  then show ?case by simp
next
  case (Cons v busy)
  obtain bs be where v: "v = (bs, be)" by (cases v)
  let ?c = "if be > c then be else c"
  from Cons.prems(1) have srt: "sorted (map fst busy)" and low: "\<forall>u \<in> set busy. bs \<le> fst u"
    by (auto simp: v)
  from Cons.prems(2) consider
      (head) "c + d \<le> bs" "s = \<lparr>fs_start = c, fs_end = c + d\<rparr>"
    | (tail) "s \<in> set (snd (walk d busy ?c []))"
    unfolding v walk_Cons_slots by (auto split: if_splits)
  then show ?case
  proof cases
    case head
    from Cons.prems(3) low have "bs \<le> fst w" by (auto simp: v)
    with head show ?thesis by (simp add: overlap_def span_def)
  next
    case tail
    show ?thesis
    proof (cases "w = v")
      case True
      from walk_slot_shape [OF tail] have "be \<le> fs_start s" by (simp split: if_splits)
      then show ?thesis by (simp add: True v overlap_def span_def)
    next
      case False
      with Cons.prems(3) have "w \<in> set busy" by simp
      with Cons.IH [OF srt tail] show ?thesis .
    qed
  qed
qed

lemma walk_slot_before_cursor:
  assumes "\<forall>w \<in> set busy. fst w \<le> snd w" and "s \<in> set (snd (walk d busy c []))"
  shows "fs_end s \<le> fst (walk d busy c []) \<or> fs_end s \<le> fs_start s"
  using assms
proof (induction busy arbitrary: c)
  case Nil
  then show ?case by simp
next
  case (Cons v busy)
  obtain bs be where v: "v = (bs, be)" by (cases v)
  let ?c = "if be > c then be else c"
  from Cons.prems(1) have wf: "\<forall>w \<in> set busy. fst w \<le> snd w" and vwf: "bs \<le> be"
    by (auto simp: v)
  have mono: "?c \<le> fst (walk d busy ?c [])" by (rule walk_cursor_mono)
  from Cons.prems(2) consider
      (head) "c + d \<le> bs" "s = \<lparr>fs_start = c, fs_end = c + d\<rparr>"
    | (tail) "s \<in> set (snd (walk d busy ?c []))"
    unfolding v walk_Cons_slots by (auto split: if_splits)
  then show ?case
  proof cases
    case head
    with vwf mono show ?thesis unfolding v walk_Cons_cursor by (auto split: if_splits)
  next
    case tail
    from Cons.IH [OF wf tail] show ?thesis unfolding v walk_Cons_cursor .
  qed
qed

lemma walk_pairwise:
  assumes "\<forall>w \<in> set busy. fst w \<le> snd w"
  shows "pairwise_disjoint (snd (walk d busy c []))"
  using assms
proof (induction busy arbitrary: c)
  case Nil
  show ?case by simp
next
  case (Cons v busy)
  obtain bs be where v: "v = (bs, be)" by (cases v)
  let ?c = "if be > c then be else c"
  from Cons.prems have wf: "\<forall>w \<in> set busy. fst w \<le> snd w" and vwf: "bs \<le> be"
    by (auto simp: v)
  have rest: "pairwise_disjoint (snd (walk d busy ?c []))" by (rule Cons.IH [OF wf])
  show ?case
  proof (cases "c + d \<le> bs")
    case False
    with rest show ?thesis unfolding v walk_Cons_slots by simp
  next
    case True
    have "\<not> overlap (span \<lparr>fs_start = c, fs_end = c + d\<rparr>) (span t)"
      if t: "t \<in> set (snd (walk d busy ?c []))" for t
    proof -
      from walk_slot_shape [OF t] have "?c \<le> fs_start t" by simp
      moreover have "c \<le> ?c" by simp
      moreover have "c + d \<le> ?c \<or> d \<le> 0" using True vwf by auto
      ultimately have "c + d \<le> fs_start t" by linarith
      then show ?thesis by (simp add: overlap_def span_def)
    qed
    with rest True show ?thesis unfolding v walk_Cons_slots by (simp add: list_all_iff)
  qed
qed

lemma sorted_fst_sort: "sorted (map fst (sort (busy :: (int \<times> int) list)))"
proof -
  have "sorted (sort busy)" by simp
  then have "sorted_wrt (\<lambda>a b. fst a \<le> fst b) (sort busy)"
    by (rule sorted_wrt_mono_rel [rotated]) (auto simp: less_eq_prod_def)
  then show ?thesis by (simp add: sorted_wrt_map)
qed

lemma gaps_eq:
  "gaps day_start day_end d busy =
     snd (walk d (sort busy) day_start []) @
       (if fst (walk d (sort busy) day_start []) + d \<le> day_end
        then [\<lparr>fs_start = fst (walk d (sort busy) day_start []),
               fs_end = fst (walk d (sort busy) day_start []) + d\<rparr>]
        else [])"
  by (simp add: gaps_def split: prod.splits)

lemma gaps_length:
  assumes "s \<in> set (gaps day_start day_end d busy)"
  shows "fs_end s - fs_start s = d"
proof -
  from assms consider
      (walked) "s \<in> set (snd (walk d (sort busy) day_start []))"
    | (final) "s = \<lparr>fs_start = fst (walk d (sort busy) day_start []),
                    fs_end = fst (walk d (sort busy) day_start []) + d\<rparr>"
    unfolding gaps_eq by (auto split: if_splits)
  then show ?thesis
  proof cases
    case walked
    from walk_slot_shape [OF walked] show ?thesis by simp
  next
    case final
    then show ?thesis by simp
  qed
qed

lemma gaps_sorted: "sorted (map fs_start (gaps day_start day_end d busy))"
proof -
  have "fs_start s \<le> fst (walk d (sort busy) day_start [])"
    if "s \<in> set (snd (walk d (sort busy) day_start []))" for s
    using walk_slot_shape [OF that] by simp
  then show ?thesis
    unfolding gaps_eq by (auto simp: sorted_append walk_sorted)
qed

lemma gaps_clear_of_busy:
  assumes "s \<in> set (gaps day_start day_end d busy)" and "w \<in> set busy"
  shows "\<not> overlap (span s) w"
proof -
  from assms(2) have w: "w \<in> set (sort busy)" by simp
  from assms(1) consider
      (walked) "s \<in> set (snd (walk d (sort busy) day_start []))"
    | (final) "s = \<lparr>fs_start = fst (walk d (sort busy) day_start []),
                    fs_end = fst (walk d (sort busy) day_start []) + d\<rparr>"
    unfolding gaps_eq by (auto split: if_splits)
  then show ?thesis
  proof cases
    case walked
    show ?thesis by (rule walk_clear_of_busy [OF sorted_fst_sort walked w])
  next
    case final
    from walk_cursor_ends [OF w] have "snd w \<le> fs_start s" by (simp add: final)
    then show ?thesis by (simp add: overlap_def span_def)
  qed
qed

lemma pairwise_disjoint_snoc:
  "pairwise_disjoint (ss @ [t]) =
     (pairwise_disjoint ss \<and> list_all (\<lambda>s. \<not> overlap (span s) (span t)) ss)"
  by (induction ss) auto

lemma gaps_pairwise:
  assumes "\<forall>w \<in> set busy. fst w \<le> snd w"
  shows "pairwise_disjoint (gaps day_start day_end d busy)"
proof -
  let ?W = "walk d (sort busy) day_start []"
  from assms have wf: "\<forall>w \<in> set (sort busy). fst w \<le> snd w" by simp
  have walked: "pairwise_disjoint (snd ?W)" by (rule walk_pairwise [OF wf])
  have "\<not> overlap (span s) (span \<lparr>fs_start = fst ?W, fs_end = fst ?W + d\<rparr>)"
    if s: "s \<in> set (snd ?W)" for s
  proof -
    from walk_slot_shape [OF s] have "fs_start s \<le> fst ?W" by simp
    with walk_slot_before_cursor [OF wf s] have "fs_end s \<le> fst ?W" by linarith
    then show ?thesis by (simp add: overlap_def span_def)
  qed
  with walked show ?thesis
    unfolding gaps_eq by (simp add: pairwise_disjoint_snoc list_all_iff)
qed

subsection \<open>The whole function\<close>

lemma find_free_slots_Inr:
  assumes "find_free_slots fromiso day0 events date n eh lh = Inr slots"
  obtains base evs busy where
    "day0 date = Some base" and "0 \<le> eh \<and> eh \<le> 23" and "0 \<le> lh \<and> lh \<le> 23"
    and "events = Inr evs" and "build_busy fromiso evs [] = Inr busy"
    and "slots = gaps (base + eh * 3600000000) (base + lh * 3600000000) (minutes n) busy"
  using assms
  by (auto simp: find_free_slots_def replace_hour_def split: option.splits sum.splits if_splits)

text \<open>
  Claim C1, as amended. Whenever \<open>find_free_slots\<close> returns, for every list of events
  (unsorted and mutually overlapping ones included) and every duration: each slot is
  exactly \<open>duration_minutes\<close> long, the slots are in chronological order of start, and
  no slot overlaps a parsed busy window. The slots are pairwise non-overlapping provided
  no busy window ends before it starts.
\<close>

theorem find_free_slots_guarantee:
  assumes "find_free_slots fromiso day0 (Inr evs) date duration_minutes earliest_hour latest_hour
             = Inr slots"
  shows "\<exists>busy. build_busy fromiso evs [] = Inr busy
           \<and> list_all (\<lambda>s. fs_end s - fs_start s = minutes duration_minutes) slots
           \<and> sorted (map fs_start slots)
           \<and> list_all (\<lambda>s. list_all (\<lambda>w. \<not> overlap (span s) w) busy) slots
           \<and> (list_all (\<lambda>w. fst w \<le> snd w) busy \<longrightarrow> pairwise_disjoint slots)"
proof -
  from assms obtain base busy where
    busy: "build_busy fromiso evs [] = Inr busy" and
    slots: "slots = gaps (base + earliest_hour * 3600000000) (base + latest_hour * 3600000000)
                      (minutes duration_minutes) busy"
    by (rule find_free_slots_Inr) simp
  have "list_all (\<lambda>s. fs_end s - fs_start s = minutes duration_minutes) slots"
    unfolding slots list_all_iff by (blast intro: gaps_length)
  moreover have "sorted (map fs_start slots)"
    unfolding slots by (rule gaps_sorted)
  moreover have "list_all (\<lambda>s. list_all (\<lambda>w. \<not> overlap (span s) w) busy) slots"
    unfolding slots list_all_iff using gaps_clear_of_busy by blast
  moreover have "list_all (\<lambda>w. fst w \<le> snd w) busy \<longrightarrow> pairwise_disjoint slots"
    unfolding slots list_all_iff by (blast intro: gaps_pairwise)
  ultimately show ?thesis using busy by blast
qed

lemmas fixture_defs =
  clock_def clock_table_def midnight_def timed_def hm_def replace_hour_def minutes_def
  parse_interval_def guarded_def time_str_def py_or_def

text \<open>
  An unsorted, overlapping list with one malformed item, 08:00 to 20:00, 60 minutes:
  the windows 10:00-12:00 and 09:00-11:00 leave the slots 08:00-09:00 and 12:00-13:00.
\<close>

theorem find_free_slots_guarantee_witness:
  "find_free_slots clock midnight (Inr demo_evs) ''2026-02-17'' 60 8 20
     = Inr [\<lparr>fs_start = hm 8 0, fs_end = hm 9 0\<rparr>, \<lparr>fs_start = hm 12 0, fs_end = hm 13 0\<rparr>]
   \<and> build_busy clock demo_evs [] = Inr [(hm 10 0, hm 12 0), (hm 9 0, hm 11 0)]
   \<and> pairwise_disjoint
        [\<lparr>fs_start = hm 8 0, fs_end = hm 9 0\<rparr>, \<lparr>fs_start = hm 12 0, fs_end = hm 13 0\<rparr>]"
proof -
  have parsed: "build_busy clock demo_evs [] = Inr [(hm 10 0, hm 12 0), (hm 9 0, hm 11 0)]"
    by (simp add: demo_evs_def fixture_defs)
  have run: "find_free_slots clock midnight (Inr demo_evs) ''2026-02-17'' 60 8 20
      = Inr [\<lparr>fs_start = hm 8 0, fs_end = hm 9 0\<rparr>, \<lparr>fs_start = hm 12 0, fs_end = hm 13 0\<rparr>]"
    by (simp add: find_free_slots_def gaps_def demo_evs_def fixture_defs)
  from find_free_slots_guarantee [OF run] parsed
  have "list_all (\<lambda>w. fst w \<le> snd w) [(hm 10 0, hm 12 0), (hm 9 0, hm 11 0)] \<longrightarrow>
        pairwise_disjoint
          [\<lparr>fs_start = hm 8 0, fs_end = hm 9 0\<rparr>, \<lparr>fs_start = hm 12 0, fs_end = hm 13 0\<rparr>]"
    by auto
  moreover have "list_all (\<lambda>w. fst w \<le> snd w) [(hm 10 0, hm 12 0), (hm 9 0, hm 11 0)]"
    by (simp add: hm_def)
  ultimately show ?thesis using run parsed by blast
qed

text \<open>
  A window that ends before it starts (10:00 to 07:00) lets the slot 08:00-09:00 be
  emitted without moving the cursor, so the check after the loop emits it again: the
  two slots overlap.
\<close>

theorem find_free_slots_reversed_window:
  "find_free_slots clock midnight (Inr [timed ''e1'' ''R'' ''10:00'' ''07:00''])
       ''2026-02-17'' 60 8 20
     = Inr [\<lparr>fs_start = hm 8 0, fs_end = hm 9 0\<rparr>, \<lparr>fs_start = hm 8 0, fs_end = hm 9 0\<rparr>]
   \<and> \<not> pairwise_disjoint
        [\<lparr>fs_start = hm 8 0, fs_end = hm 9 0\<rparr>, \<lparr>fs_start = hm 8 0, fs_end = hm 9 0\<rparr>]"
  by (simp add: find_free_slots_def gaps_def fixture_defs overlap_def span_def)

text \<open>
  Claim C4, evaluated where it fails. Working hours 08:00 to 20:00, 60 minutes, busy
  08:00-19:30 and 21:00-22:00: the slot 19:30-20:30 is emitted inside the loop, where only
  the next window's start bounds it, and it ends after \<open>day_end\<close> (20:00).
\<close>

theorem find_free_slots_past_day_end:
  "find_free_slots clock midnight
       (Inr [timed ''e1'' ''Day'' ''08:00'' ''19:30'', timed ''e2'' ''Late'' ''21:00'' ''22:00''])
       ''2026-02-17'' 60 8 20
     = Inr [\<lparr>fs_start = hm 19 30, fs_end = hm 20 30\<rparr>]
   \<and> hm 20 0 < hm 20 30"
  by (simp add: find_free_slots_def gaps_def fixture_defs)

text \<open>
  Claim C5, evaluated where it fails. With \<open>earliest_hour = latest_hour = 8\<close> the window
  is empty, yet one event at 10:00-11:00 makes the loop emit the slot 08:00-09:00.
\<close>

theorem find_free_slots_empty_window_emits:
  "find_free_slots clock midnight (Inr [timed ''e1'' ''Meeting'' ''10:00'' ''11:00''])
       ''2026-02-17'' 60 8 8
     = Inr [\<lparr>fs_start = hm 8 0, fs_end = hm 9 0\<rparr>]"
  by (simp add: find_free_slots_def gaps_def fixture_defs)

section \<open>Properties of the conflict detector\<close>

text \<open>The scan is unfolded one step at a time below, never by the simplifier on its own.\<close>

declare scan.simps [simp del]

lemma adjacent_Cons2: "adjacent (p # q # ps) = (p, q) # adjacent (q # ps)"
  by (simp add: adjacent_def)

lemma adjacent_single: "adjacent [p] = []"
  by (simp add: adjacent_def)

lemma scan_step:
  "scan rnd (p # q # ps) acc =
     scan rnd (q # ps)
       \<lparr>overlaps = overlaps acc @ (if is_overlap (p, q) then [overlap_of (p, q)] else []),
        tight_transitions =
          tight_transitions acc @ (if is_tight (p, q) then [tight_of rnd (p, q)] else []),
        long_events = long_events acc @ (if is_long p then [long_of rnd p] else [])\<rparr>"
proof -
  obtain s1 e1 title1 id1 where p: "p = (s1, e1, title1, id1)" by (cases p)
  obtain s2 e2 title2 id2 where q: "q = (s2, e2, title2, id2)" by (cases q)
  show ?thesis
    unfolding p q
    by (cases acc, subst scan.simps)
       (simp add: Let_def is_overlap_def is_tight_def is_long_def overlap_of_def tight_of_def
          long_of_def p_start_def p_end_def p_title_def minutes_def)
qed

lemma scan_last:
  "scan rnd [p] acc =
     acc\<lparr>long_events := long_events acc @ (if is_long p then [long_of rnd p] else [])\<rparr>"
proof -
  obtain s1 e1 title1 id1 where p: "p = (s1, e1, title1, id1)" by (cases p)
  show ?thesis
    unfolding p
    by (cases acc, subst scan.simps)
       (simp add: Let_def is_long_def long_of_def p_start_def p_end_def p_title_def minutes_def)
qed

lemma scan_eq:
  "scan rnd ps acc =
     \<lparr>overlaps = overlaps acc @ map overlap_of (filter is_overlap (adjacent ps)),
      tight_transitions =
        tight_transitions acc @ map (tight_of rnd) (filter is_tight (adjacent ps)),
      long_events = long_events acc @ map (long_of rnd) (filter is_long ps)\<rparr>"
proof (induction ps arbitrary: acc)
  case Nil
  show ?case by (simp add: scan.simps(1) adjacent_def)
next
  case (Cons p ps)
  show ?case
  proof (cases ps)
    case Nil
    show ?thesis unfolding Nil scan_last by (simp add: adjacent_single)
  next
    case (Cons q qs)
    show ?thesis
      unfolding Cons scan_step adjacent_Cons2
      by (subst Cons.IH [unfolded Cons]) simp
  qed
qed

lemma schedule_find_conflicts_Inr:
  assumes "schedule_find_conflicts rnd str_of fromiso events sd ed = Inr r"
  obtains evs parsed where "events = Inr evs" and "build_parsed fromiso evs [] = Inr parsed"
    and "cr_overlaps r = map overlap_of (filter is_overlap (adjacent (sort parsed)))"
    and "cr_tight_transitions r = map (tight_of rnd) (filter is_tight (adjacent (sort parsed)))"
    and "cr_long_events r = map (long_of rnd) (filter is_long (sort parsed))"
    and "cr_all_clear r = (cr_overlaps r = [] \<and> cr_tight_transitions r = [])"
    and "cr_date_range r = (sd, ed)"
  using assms
  by (auto simp: schedule_find_conflicts_def scan_eq Let_def split: sum.splits)

lemmas conflict_defs =
  schedule_find_conflicts_def summary_or_default_def scan.simps Let_def less_eq_prod_def

text \<open>
  Claim C2. The overlaps reported are exactly those of the adjacent pairs
  \<open>(current, next)\<close> of the sorted list with \<open>next.start < current.end\<close>, each with
  \<open>overlap_start = next.start\<close> and \<open>overlap_end = min(current.end, next.end)\<close>; the
  tight transitions are exactly those of the adjacent pairs that do not overlap and whose
  gap \<open>next.start - current.end\<close> is below 10 minutes, each with that gap rounded
  (\<open>rnd\<close>) in minutes. No other pair is compared.
\<close>

theorem conflicts_adjacent_pairs:
  assumes "schedule_find_conflicts rnd str_of fromiso events start_date end_date = Inr r"
  shows "\<exists>evs parsed. events = Inr evs \<and> build_parsed fromiso evs [] = Inr parsed
           \<and> cr_overlaps r = map overlap_of (filter is_overlap (adjacent (sort parsed)))
           \<and> cr_tight_transitions r =
               map (tight_of rnd) (filter is_tight (adjacent (sort parsed)))"
  using assms by (rule schedule_find_conflicts_Inr) blast

text \<open>
  A 09:00-12:00, B 09:30-10:00, C 11:00-11:30, D 11:30-12:00, given out of order. A
  overlaps B, C and D, but only its successor B is compared with it: one overlap (A, B),
  and one tight transition (C, D) with gap 0.
\<close>

theorem conflicts_adjacent_pairs_witness:
  "schedule_find_conflicts tenths render clock (Inr abcd_evs) ''2026-02-17'' ''2026-02-17''
     = Inr \<lparr>cr_date_range = (''2026-02-17'', ''2026-02-17''),
            cr_overlaps =
              [\<lparr>ov_event_1 = ''A'', ov_event_2 = ''B'',
                ov_overlap_start = hm 9 30, ov_overlap_end = hm 10 0\<rparr>],
            cr_tight_transitions =
              [\<lparr>tt_event_1 = ''C'', tt_event_1_end = hm 11 30, tt_event_2 = ''D'',
                tt_event_2_start = hm 11 30, tt_gap_minutes = 0\<rparr>],
            cr_long_events = [], cr_all_clear = False\<rparr>
   \<and> map overlap_of (filter is_overlap (adjacent (sort
         [(hm 11 0, hm 11 30, ''C'', ''e3''), (hm 9 0, hm 12 0, ''A'', ''e1''),
          (hm 11 30, hm 12 0, ''D'', ''e4''), (hm 9 30, hm 10 0, ''B'', ''e2'')])))
     = [\<lparr>ov_event_1 = ''A'', ov_event_2 = ''B'',
         ov_overlap_start = hm 9 30, ov_overlap_end = hm 10 0\<rparr>]"
  (is "?call = Inr ?r \<and> map overlap_of (filter is_overlap (adjacent (sort ?ps))) = ?ov")
proof -
  have parsed: "build_parsed clock abcd_evs [] = Inr ?ps"
    by (simp add: abcd_evs_def summary_or_default_def fixture_defs)
  have run: "?call = Inr ?r"
    by (simp add: abcd_evs_def conflict_defs fixture_defs tenths_def)
  from conflicts_adjacent_pairs [OF run] obtain evs ps where
    evs: "Inr abcd_evs = (Inr evs :: exn + gcal_event list)" and
    ps: "build_parsed clock evs [] = Inr ps" and
    ov: "cr_overlaps ?r = map overlap_of (filter is_overlap (adjacent (sort ps)))"
    by (elim exE conjE) (rule that)
  from evs have "evs = abcd_evs" by simp
  with ps parsed have "ps = ?ps" by simp
  with ov have "map overlap_of (filter is_overlap (adjacent (sort ?ps))) = ?ov"
    by (simp only: conflict_report.simps)
  with run show ?thesis by (rule conjI)
qed

text \<open>
  Claim C6. Every parsed event whose own duration exceeds 4 hours is in
  \<open>long_events\<close>, with its duration rounded (\<open>rnd\<close>) in hours, whatever its
  neighbours are; and \<open>all_clear\<close> holds exactly when \<open>overlaps\<close> and
  \<open>tight_transitions\<close> are both empty, so the long events have no part in it.
\<close>

theorem conflicts_long_events:
  assumes "schedule_find_conflicts rnd str_of fromiso events start_date end_date = Inr r"
  shows "\<exists>evs parsed. events = Inr evs \<and> build_parsed fromiso evs [] = Inr parsed
           \<and> cr_long_events r = map (long_of rnd) (filter is_long (sort parsed))
           \<and> cr_all_clear r = (cr_overlaps r = [] \<and> cr_tight_transitions r = [])"
  using assms by (rule schedule_find_conflicts_Inr) blast

text \<open>One event of five hours, 10:00-15:00: it is reported as long (5.0 hours, 50 tenths)
  and \<open>all_clear\<close> is true.\<close>

theorem conflicts_long_events_witness:
  "schedule_find_conflicts tenths render clock (Inr [timed ''e1'' ''L'' ''10:00'' ''15:00''])
       ''2026-02-17'' ''2026-02-17''
     = Inr \<lparr>cr_date_range = (''2026-02-17'', ''2026-02-17''),
            cr_overlaps = [], cr_tight_transitions = [],
            cr_long_events =
              [\<lparr>lg_event = ''L'', lg_start = hm 10 0, lg_end = hm 15 0,
                lg_duration_hours = 50\<rparr>],
            cr_all_clear = True\<rparr>
   \<and> map (long_of tenths) (filter is_long (sort [(hm 10 0, hm 15 0, ''L'', ''e1'')]))
     = [\<lparr>lg_event = ''L'', lg_start = hm 10 0, lg_end = hm 15 0, lg_duration_hours = 50\<rparr>]"
  (is "?call = Inr ?r \<and> map (long_of tenths) (filter is_long (sort ?ps)) = ?lg")
proof -
  have parsed: "build_parsed clock [timed ''e1'' ''L'' ''10:00'' ''15:00''] [] = Inr ?ps"
    by (simp add: summary_or_default_def fixture_defs)
  have run: "?call = Inr ?r"
    by (simp add: conflict_defs fixture_defs tenths_def)
  from conflicts_long_events [OF run] obtain evs ps where
    evs: "Inr [timed ''e1'' ''L'' ''10:00'' ''15:00''] = (Inr evs :: exn + gcal_event list)" and
    ps: "build_parsed clock evs [] = Inr ps" and
    lg: "cr_long_events ?r = map (long_of tenths) (filter is_long (sort ps))"
    by (elim exE conjE) (rule that)
  from evs have "evs = [timed ''e1'' ''L'' ''10:00'' ''15:00'']" by simp
  with ps parsed have "ps = ?ps" by simp
  with lg have "map (long_of tenths) (filter is_long (sort ?ps)) = ?lg"
    by (simp only: conflict_report.simps)
  with run show ?thesis by (rule conjI)
qed

section \<open>Malformed items\<close>

lemma first_abort_Cons_Inr:
  "parse_interval fromiso ev = Inr w \<Longrightarrow>
     first_abort fromiso (ev # evs) = first_abort fromiso evs"
  by simp

lemma first_abort_Cons_Inl:
  "parse_interval fromiso ev = Inl x \<Longrightarrow> first_abort fromiso (ev # evs) = Some x"
  by simp

text \<open>
  The two parsing loops, in closed form: the exception of the first item that raises past
  the handler, if there is one; otherwise the list so far followed by one entry for each
  item that parses, in the order of the items.
\<close>

lemma build_busy_eq:
  "build_busy fromiso evs busy =
     (case first_abort fromiso evs of
        Some x \<Rightarrow> Inl x
      | None \<Rightarrow> Inr (busy @ List.map_filter (window_of fromiso) evs))"
proof (induction evs arbitrary: busy)
  case Nil
  show ?case by (simp add: List.map_filter_simps)
next
  case (Cons ev evs)
  show ?case
  proof (cases "parse_interval fromiso ev")
    case (Inl x)
    then show ?thesis by simp
  next
    case (Inr w)
    have fa: "first_abort fromiso (ev # evs) = first_abort fromiso evs"
      by (rule first_abort_Cons_Inr [OF Inr])
    show ?thesis
    proof (cases w)
      case None
      with Inr have "window_of fromiso ev = None" by (simp add: window_of_def)
      then have mf: "List.map_filter (window_of fromiso) (ev # evs)
                       = List.map_filter (window_of fromiso) evs"
        by (simp add: List.map_filter_simps)
      from None Inr
      have step: "build_busy fromiso (ev # evs) busy = build_busy fromiso evs busy"
        by simp
      show ?thesis unfolding step mf fa by (rule Cons.IH)
    next
      case (Some se)
      with Inr have "window_of fromiso ev = Some se" by (simp add: window_of_def)
      then have mf: "busy @ List.map_filter (window_of fromiso) (ev # evs)
                       = (busy @ [se]) @ List.map_filter (window_of fromiso) evs"
        by (simp add: List.map_filter_simps)
      from Some Inr
      have step: "build_busy fromiso (ev # evs) busy = build_busy fromiso evs (busy @ [se])"
        by simp
      show ?thesis unfolding step mf fa by (rule Cons.IH)
    qed
  qed
qed

lemma build_parsed_eq:
  "build_parsed fromiso evs parsed =
     (case first_abort fromiso evs of
        Some x \<Rightarrow> Inl x
      | None \<Rightarrow> Inr (parsed @ List.map_filter (entry_of fromiso) evs))"
proof (induction evs arbitrary: parsed)
  case Nil
  show ?case by (simp add: List.map_filter_simps)
next
  case (Cons ev evs)
  show ?case
  proof (cases "parse_interval fromiso ev")
    case (Inl x)
    then show ?thesis by simp
  next
    case (Inr w)
    have fa: "first_abort fromiso (ev # evs) = first_abort fromiso evs"
      by (rule first_abort_Cons_Inr [OF Inr])
    show ?thesis
    proof (cases w)
      case None
      with Inr have "entry_of fromiso ev = None"
        by (simp add: entry_of_def window_of_def)
      then have mf: "List.map_filter (entry_of fromiso) (ev # evs)
                       = List.map_filter (entry_of fromiso) evs"
        by (simp add: List.map_filter_simps)
      from None Inr
      have step: "build_parsed fromiso (ev # evs) parsed = build_parsed fromiso evs parsed"
        by simp
      show ?thesis unfolding step mf fa by (rule Cons.IH)
    next
      case (Some se)
      obtain s e where se: "se = (s, e)" by (cases se)
      let ?t = "(s, e, summary_or_default ev, ev_id ev)"
      from Some se Inr have "entry_of fromiso ev = Some ?t"
        by (simp add: entry_of_def window_of_def)
      then have mf: "parsed @ List.map_filter (entry_of fromiso) (ev # evs)
                       = (parsed @ [?t]) @ List.map_filter (entry_of fromiso) evs"
        by (simp add: List.map_filter_simps)
      from Some se Inr
      have step: "build_parsed fromiso (ev # evs) parsed
                    = build_parsed fromiso evs (parsed @ [?t])"
        by simp
      show ?thesis unfolding step mf fa by (rule Cons.IH)
    qed
  qed
qed

lemma map_filter_well_formed:
  "List.map_filter (window_of fromiso) (filter (well_formed fromiso) evs)
     = List.map_filter (window_of fromiso) evs"
proof (induction evs)
  case Nil
  show ?case by (simp add: List.map_filter_simps)
next
  case (Cons ev evs)
  then show ?case
    by (cases "window_of fromiso ev") (simp_all add: List.map_filter_simps well_formed_def)
qed

lemma map_filter_entry_well_formed:
  "List.map_filter (entry_of fromiso) (filter (well_formed fromiso) evs)
     = List.map_filter (entry_of fromiso) evs"
proof (induction evs)
  case Nil
  show ?case by (simp add: List.map_filter_simps)
next
  case (Cons ev evs)
  then show ?case
    by (cases "window_of fromiso ev")
      (simp_all add: List.map_filter_simps well_formed_def entry_of_def split: prod.splits)
qed

lemma first_abort_well_formed: "first_abort fromiso (filter (well_formed fromiso) evs) = None"
  by (induction evs) (auto simp: well_formed_def window_of_def split: sum.splits)

text \<open>
  When no item raises past the handler, the items that do not parse are skipped: the busy
  windows and the detector's tuples are those of the items that parse, in order, and
  both operations give what they give on the well-formed items alone.
\<close>

lemma unparsable_items_skipped:
  assumes "first_abort fromiso evs = None"
  shows "build_busy fromiso evs [] = Inr (List.map_filter (window_of fromiso) evs)"
    and "build_parsed fromiso evs [] = Inr (List.map_filter (entry_of fromiso) evs)"
    and "find_free_slots fromiso day0 (Inr evs) date n eh lh
           = find_free_slots fromiso day0 (Inr (filter (well_formed fromiso) evs)) date n eh lh"
    and "schedule_find_conflicts rnd str_of fromiso (Inr evs) sd ed
           = schedule_find_conflicts rnd str_of fromiso (Inr (filter (well_formed fromiso) evs))
               sd ed"
proof -
  show "build_busy fromiso evs [] = Inr (List.map_filter (window_of fromiso) evs)"
    using assms by (simp add: build_busy_eq)
  show "build_parsed fromiso evs [] = Inr (List.map_filter (entry_of fromiso) evs)"
    using assms by (simp add: build_parsed_eq)
  have "build_busy fromiso evs [] = build_busy fromiso (filter (well_formed fromiso) evs) []"
    using assms by (simp add: build_busy_eq first_abort_well_formed map_filter_well_formed)
  then show "find_free_slots fromiso day0 (Inr evs) date n eh lh
           = find_free_slots fromiso day0 (Inr (filter (well_formed fromiso) evs)) date n eh lh"
    by (simp add: find_free_slots_def split: option.splits sum.splits)
  have "build_parsed fromiso evs [] = build_parsed fromiso (filter (well_formed fromiso) evs) []"
    using assms
    by (simp add: build_parsed_eq first_abort_well_formed map_filter_entry_well_formed)
  then show "schedule_find_conflicts rnd str_of fromiso (Inr evs) sd ed
           = schedule_find_conflicts rnd str_of fromiso (Inr (filter (well_formed fromiso) evs))
               sd ed"
    by (simp add: schedule_find_conflicts_def)
qed

text \<open>
  When an item raises past the handler, nothing is returned for the batch: the finder
  raises, and the detector's tool returns the error text.
\<close>

lemma an_abort_is_final:
  assumes "first_abort fromiso evs = Some x"
  shows "find_free_slots fromiso day0 (Inr evs) date n eh lh \<noteq> Inr slots"
    and "schedule_find_conflicts rnd str_of fromiso (Inr evs) sd ed
           = Inl (''Error checking for conflicts: '' @ str_of x)"
  using assms
  by (auto simp: find_free_slots_def schedule_find_conflicts_def build_busy_eq build_parsed_eq
      split: option.splits sum.splits)

text \<open>
  Claim C7, evaluated where it fails. The handler of the parsing loop catches
  \<open>ValueError\<close> only. On the day of an event 09:00-11:00, a second item whose start
  carries neither \<open>dateTime\<close> nor \<open>date\<close> makes \<open>fromisoformat(None)\<close> raise
  \<open>TypeError\<close>: the finder raises instead of returning the two slots 08:00-09:00 and
  11:00-12:00 that the well-formed item alone gives, and the conflict detector returns
  its error text. The batch is aborted likewise by an item whose start is
  0001-01-01T00:00:00+14:00 (\<open>OverflowError\<close> in \<open>astimezone\<close>) and by an item with no
  \<open>end\<close> key (\<open>KeyError\<close>, raised before the \<open>try\<close>).
\<close>

theorem malformed_item_aborts_batch:
  "find_free_slots clock midnight
       (Inr [timed ''e1'' ''A'' ''09:00'' ''11:00'', no_start_string]) ''2026-02-17'' 60 8 20
     = Inl TypeError
   \<and> filter (well_formed clock) [timed ''e1'' ''A'' ''09:00'' ''11:00'', no_start_string]
     = [timed ''e1'' ''A'' ''09:00'' ''11:00'']
   \<and> find_free_slots clock midnight
       (Inr [timed ''e1'' ''A'' ''09:00'' ''11:00'']) ''2026-02-17'' 60 8 20
     = Inr [\<lparr>fs_start = hm 8 0, fs_end = hm 9 0\<rparr>, \<lparr>fs_start = hm 11 0, fs_end = hm 12 0\<rparr>]
   \<and> schedule_find_conflicts tenths render clock
       (Inr [timed ''e1'' ''A'' ''09:00'' ''11:00'', no_start_string])
       ''2026-02-17'' ''2026-02-17''
     = Inl ''Error checking for conflicts: TypeError''
   \<and> find_free_slots clock midnight
       (Inr [timed ''e1'' ''A'' ''09:00'' ''11:00'', overflowing_start]) ''2026-02-17'' 60 8 20
     = Inl OverflowError
   \<and> find_free_slots clock midnight
       (Inr [timed ''e1'' ''A'' ''09:00'' ''11:00'', no_end_key]) ''2026-02-17'' 60 8 20
     = Inl KeyError"
  by (simp add: find_free_slots_def gaps_def schedule_find_conflicts_def well_formed_def
      window_of_def no_start_string_def overflowing_start_def no_end_key_def render_def
      fixture_defs)

section \<open>Properties of the overdue reconciler\<close>

lemma dedup_acc: "dedup ts seen combined = combined @ dedup ts seen []"
proof (induction ts arbitrary: seen combined)
  case Nil
  show ?case by simp
next
  case (Cons t ts)
  show ?case
  proof (cases "notion_id t \<in> seen")
    case True
    with Cons.IH [of seen combined] show ?thesis by simp
  next
    case False
    have "dedup ts (insert (notion_id t) seen) (combined @ [t])
            = (combined @ [t]) @ dedup ts (insert (notion_id t) seen) []"
      by (rule Cons.IH)
    moreover have "dedup ts (insert (notion_id t) seen) [t]
            = [t] @ dedup ts (insert (notion_id t) seen) []"
      by (rule Cons.IH)
    ultimately show ?thesis using False by simp
  qed
qed

lemma dedup_first_seen: "dedup ts (set seen) [] = first_seen seen ts"
proof (induction ts arbitrary: seen)
  case Nil
  show ?case by simp
next
  case (Cons t ts)
  have "dedup ts (insert (notion_id t) (set seen)) [] = first_seen (notion_id t # seen) ts"
    using Cons.IH [of "notion_id t # seen"] by simp
  then show ?case
    using Cons.IH [of seen] by (simp add: dedup_acc [of ts _ "[t]"])
qed

lemma first_seen_cong:
  "set seen = set seen' \<Longrightarrow> first_seen seen ts = first_seen seen' ts"
proof (induction ts arbitrary: seen seen')
  case Nil
  show ?case by simp
next
  case (Cons t ts)
  from Cons.prems have "set (notion_id t # seen) = set (notion_id t # seen')" by simp
  then have "first_seen (notion_id t # seen) ts = first_seen (notion_id t # seen') ts"
    by (rule Cons.IH)
  moreover have "first_seen seen ts = first_seen seen' ts"
    using Cons.prems by (rule Cons.IH)
  ultimately show ?case using Cons.prems by simp
qed

lemma first_seen_append:
  "first_seen seen (xs @ ys) = first_seen seen xs @ first_seen (map notion_id xs @ seen) ys"
proof (induction xs arbitrary: seen)
  case Nil
  show ?case by simp
next
  case (Cons x xs)
  show ?case
  proof (cases "notion_id x \<in> set seen")
    case True
    then have "set (map notion_id (x # xs) @ seen) = set (map notion_id xs @ seen)" by auto
    then have "first_seen (map notion_id (x # xs) @ seen) ys
                 = first_seen (map notion_id xs @ seen) ys"
      by (rule first_seen_cong)
    with True Cons.IH [of seen] show ?thesis by simp
  next
    case False
    have "set (map notion_id (x # xs) @ seen) = set (map notion_id xs @ notion_id x # seen)"
      by auto
    then have "first_seen (map notion_id (x # xs) @ seen) ys
                 = first_seen (map notion_id xs @ notion_id x # seen) ys"
      by (rule first_seen_cong)
    with False Cons.IH [of "notion_id x # seen"] show ?thesis by simp
  qed
qed

lemma first_seen_fresh: "x \<in> set (first_seen seen ts) \<Longrightarrow> notion_id x \<notin> set seen"
  by (induction seen ts rule: first_seen.induct) (auto split: if_splits)

lemma first_seen_distinct: "distinct (map notion_id (first_seen seen ts))"
proof (induction seen ts rule: first_seen.induct)
  case (1 seen)
  show ?case by simp
next
  case (2 seen t ts)
  show ?case
  proof (cases "notion_id t \<in> set seen")
    case True
    with 2 show ?thesis by simp
  next
    case False
    have "notion_id t \<notin> notion_id ` set (first_seen (notion_id t # seen) ts)"
    proof
      assume "notion_id t \<in> notion_id ` set (first_seen (notion_id t # seen) ts)"
      then obtain x where x: "x \<in> set (first_seen (notion_id t # seen) ts)"
        and same: "notion_id x = notion_id t" by auto
      from first_seen_fresh [OF x] have "notion_id x \<noteq> notion_id t" by simp
      with same show False by contradiction
    qed
    with False 2 show ?thesis by simp
  qed
qed

lemma first_seen_set:
  assumes "inj_on notion_id (set ts)"
  shows "set (first_seen seen ts) = {t \<in> set ts. notion_id t \<notin> set seen}"
  using assms
proof (induction seen ts rule: first_seen.induct)
  case (1 seen)
  show ?case by simp
next
  case (2 seen t ts)
  from "2.prems" have inj: "inj_on notion_id (set ts)" by (simp add: inj_on_def)
  show ?case
  proof (cases "notion_id t \<in> set seen")
    case True
    with "2.IH"(1) [OF True inj] show ?thesis by auto
  next
    case False
    have same: "x = t" if "x \<in> set ts" and "notion_id x = notion_id t" for x
      using "2.prems" that by (auto simp: inj_on_def)
    from "2.IH"(2) [OF False inj] False show ?thesis
      using same by auto
  qed
qed

lemma keep_by_date_eq: "keep_by_date today = past_due_open today"
  by (rule ext, case_tac "due_date x") (auto simp: keep_by_date_def past_due_open_def due_before_today_def)

text \<open>
  What \<open>get_tasks\<close> returns for one filter: the simplified pages of the response. Neither
  \<open>has_more\<close> nor \<open>next_cursor\<close> of the response has any part in it.
\<close>

lemma get_tasks_status:
  assumes "token_error n = None" and "status \<noteq> []"
    and "query_tasks n (Single (StatusEquals status)) = Inr response"
  shows "get_tasks n (Some status) None None = Inr (map simplify_task (qr_results response))"
  using assms by (simp add: get_tasks_def truthy_def)

lemma get_tasks_due_before:
  assumes "token_error n = None" and "today \<noteq> []"
    and "query_tasks n (Single (DueOnOrBefore today)) = Inr response"
  shows "get_tasks n None (Some today) None = Inr (map simplify_task (qr_results response))"
  using assms by (simp add: get_tasks_def truthy_def)

text \<open>
  The reconciler on the two responses: the tasks of the status response in first-seen
  order, then the tasks of the due-date response that are past due and open, in
  first-seen order, without those already seen; no id occurs twice.
\<close>

lemma get_overdue_tasks_eq:
  assumes token: "token_error n = None" and today: "today \<noteq> []"
    and by_status: "query_tasks n (Single (StatusEquals ''Overdue'')) = Inr flagged"
    and by_date: "query_tasks n (Single (DueOnOrBefore today)) = Inr due"
  shows "get_overdue_tasks n today
           = Inr (first_seen [] (map simplify_task (qr_results flagged))
                  @ first_seen (map notion_id (map simplify_task (qr_results flagged)))
                      (filter (past_due_open today) (map simplify_task (qr_results due))))"
    (is "_ = Inr (first_seen [] ?a @ first_seen (map notion_id ?a) ?b)")
proof -
  have a: "get_tasks n (Some ''Overdue'') None None = Inr ?a"
    by (rule get_tasks_status [OF token _ by_status]) simp
  have b: "get_tasks n None (Some today) None = Inr (map simplify_task (qr_results due))"
    by (rule get_tasks_due_before [OF token today by_date])
  have "dedup (?a @ ?b) {} [] = first_seen [] (?a @ ?b)"
    using dedup_first_seen [of "?a @ ?b" "[]"] by simp
  then have "get_overdue_tasks n today = Inr (first_seen [] (?a @ ?b))"
    by (simp add: get_overdue_tasks_def a b keep_by_date_eq)
  then show ?thesis by (simp add: first_seen_append)
qed

lemma get_overdue_tasks_distinct:
  assumes "get_overdue_tasks n today = Inr combined"
  shows "distinct (map notion_id combined)"
proof -
  from assms obtain ts where "combined = dedup ts {} []"
    by (auto simp: get_overdue_tasks_def split: sum.splits)
  then have "combined = first_seen [] ts"
    using dedup_first_seen [of ts "[]"] by simp
  then show ?thesis by (simp add: first_seen_distinct)
qed

lemma simplify_task_fields:
  "notion_id (simplify_task p) = pg_id p"
  "task_status (simplify_task p) = pg_task_status p"
  "due_date (simplify_task p) = pg_due_date p"
  by (simp_all add: simplify_task_def)

text \<open>
  When every response of the provider holds all the pages that match (the database is no
  longer than a response may be) and ids are unique, the result is exactly the union of
  set (a) and set (b), each task once.
\<close>

lemma get_overdue_tasks_whole_response:
  assumes fits: "length db \<le> page_size" and today: "today \<noteq> []"
    and ids: "distinct (map pg_id db)"
  shows "\<exists>combined. get_overdue_tasks (paged_notion page_size db) today = Inr combined
           \<and> set combined
               = set (filter flagged_overdue (map simplify_task db))
                 \<union> set (filter (past_due_open today) (map simplify_task db))
           \<and> distinct (map notion_id combined)"
proof -
  let ?n = "paged_notion page_size db"
  let ?all = "map simplify_task db"
  let ?fa = "paged_answer page_size db (Single (StatusEquals ''Overdue''))"
  let ?fb = "paged_answer page_size db (Single (DueOnOrBefore today))"
  let ?a = "map simplify_task (qr_results ?fa)"
  let ?b = "filter (past_due_open today) (map simplify_task (qr_results ?fb))"
  let ?combined = "first_seen [] ?a @ first_seen (map notion_id ?a) ?b"
  have whole: "take page_size (filter P db) = filter P db" for P
  proof -
    have "length (filter P db) \<le> length db" by (rule length_filter_le)
    from this fits have "length (filter P db) \<le> page_size" by (rule order_trans)
    then show ?thesis by simp
  qed
  have run: "get_overdue_tasks ?n today = Inr ?combined"
    by (rule get_overdue_tasks_eq [OF _ today]) (simp_all add: paged_notion_def)
  have a: "set ?a = set (filter flagged_overdue ?all)"
    by (auto simp: paged_answer_def whole hits_def filter_holds_def flagged_overdue_def
        simplify_task_fields)
  have b: "set ?b = set (filter (past_due_open today) ?all)"
    by (auto simp: paged_answer_def whole hits_def filter_holds_def past_due_open_def
        due_before_today_def simplify_task_fields split: option.splits)
  have "inj_on pg_id (set db)" using ids by (simp add: distinct_map)
  then have "inj_on notion_id (set ?all)"
    by (auto simp: inj_on_def simplify_task_fields simplify_task_def)
  moreover have "set (?a @ ?b) \<subseteq> set ?all"
    using a b by auto
  ultimately have inj: "inj_on notion_id (set (?a @ ?b))"
    by (rule inj_on_subset)
  have eq: "?combined = first_seen [] (?a @ ?b)"
    by (simp add: first_seen_append)
  have "set (first_seen [] (?a @ ?b)) = {t \<in> set (?a @ ?b). notion_id t \<notin> set []}"
    by (rule first_seen_set [OF inj])
  then have "set (first_seen [] (?a @ ?b)) = set ?a \<union> set ?b"
    by auto
  then have "set ?combined = set ?a \<union> set ?b"
    unfolding eq .
  then have members: "set ?combined
      = set (filter flagged_overdue ?all) \<union> set (filter (past_due_open today) ?all)"
    unfolding a b .
  have once: "distinct (map notion_id ?combined)"
    unfolding eq by (rule first_seen_distinct)
  from run members once show ?thesis by (intro exI conjI)
qed

text \<open>The small database on 2026-02-17, everything in the first page: t4 and t3 by
  status, then t2 by date; t1 is done and t4 is not repeated.\<close>

lemma get_overdue_tasks_small_db:
  "get_overdue_tasks (paged_notion 100 small_db) ''2026-02-17''
     = Inr [mk_task ''t4'' (Some ''Overdue'') (Some ''2026-02-10''),
            mk_task ''t3'' (Some ''Overdue'') (Some ''2026-03-01''),
            mk_task ''t2'' (Some ''Not started'') (Some ''2026-02-16'')]"
  by (simp add: get_overdue_tasks_def get_tasks_def truthy_def paged_notion_def
      paged_answer_def small_db_def hits_def filter_holds_def mk_page_def mk_task_def
      simplify_task_def keep_by_date_def)

text \<open>The crowded database: what the two queries match, and what one response holds.\<close>

lemma done_page_hits:
  "hits (Single (StatusEquals ''Overdue'')) (done_page i) = False"
  "hits (Single (DueOnOrBefore ''2026-02-17'')) (done_page i) = True"
  "keep_by_date ''2026-02-17'' (simplify_task (done_page i)) = False"
  by (simp_all add: hits_def filter_holds_def done_page_def mk_page_def keep_by_date_def
      simplify_task_def)

lemma late_page_hits:
  "hits (Single (StatusEquals ''Overdue'')) late_page = False"
  "hits (Single (DueOnOrBefore ''2026-02-17'')) late_page = True"
  "keep_by_date ''2026-02-17'' (simplify_task late_page) = True"
  by (simp_all add: hits_def filter_holds_def late_page_def mk_page_def keep_by_date_def
      simplify_task_def)

lemma crowded_by_status:
  "filter (hits (Single (StatusEquals ''Overdue''))) crowded_db = []"
  by (simp add: crowded_db_def done_page_hits late_page_hits filter_empty_conv)

lemma crowded_by_date:
  "filter (hits (Single (DueOnOrBefore ''2026-02-17''))) crowded_db = crowded_db"
  by (simp add: crowded_db_def done_page_hits late_page_hits filter_id_conv)

lemma crowded_first_page: "take 100 crowded_db = map done_page [0..<100]"
  by (simp add: crowded_db_def)

lemma crowded_length: "length crowded_db = 101"
  by (simp add: crowded_db_def)

lemma done_pages_kept:
  "filter (keep_by_date ''2026-02-17'') (map (simplify_task \<circ> done_page) xs) = []"
  by (simp add: filter_empty_conv done_page_hits)

text \<open>
  Claim C3, evaluated where it fails. The Tasks database holds a hundred finished tasks
  due on 2026-01-01 and one task, not started, due on 2026-02-16; the provider returns at
  most 100 results per response. On 2026-02-17 the task is past due and open, so it
  belongs to set (b); the due-date query matches all 101 tasks, the response holds the
  first hundred and says that more remain; \<open>get_tasks\<close> reads that response only, and
  \<open>get_overdue_tasks\<close> returns the empty list. Had the response held all 101 results,
  the task would have been returned.
\<close>

theorem get_overdue_tasks_first_page_only:
  "get_overdue_tasks (paged_notion 100 crowded_db) ''2026-02-17'' = Inr []
   \<and> late_page \<in> set crowded_db
   \<and> past_due_open ''2026-02-17'' (simplify_task late_page)
   \<and> qr_has_more (paged_answer 100 crowded_db (Single (DueOnOrBefore ''2026-02-17'')))
   \<and> get_overdue_tasks (paged_notion 101 crowded_db) ''2026-02-17''
       = Inr [simplify_task late_page]"
proof -
  have "get_overdue_tasks (paged_notion 100 crowded_db) ''2026-02-17'' = Inr []"
    by (simp add: get_overdue_tasks_def get_tasks_def truthy_def paged_notion_def
        paged_answer_def crowded_by_status crowded_by_date crowded_first_page
        done_pages_kept)
  moreover have "late_page \<in> set crowded_db"
    by (simp add: crowded_db_def)
  moreover have "past_due_open ''2026-02-17'' (simplify_task late_page)"
    using late_page_hits(3) by (simp add: keep_by_date_eq)
  moreover
  have "qr_has_more (paged_answer 100 crowded_db (Single (DueOnOrBefore ''2026-02-17'')))"
    by (simp add: paged_answer_def crowded_by_date crowded_length)
  moreover have "take 101 crowded_db = crowded_db"
    by (simp add: crowded_length)
  then have "get_overdue_tasks (paged_notion 101 crowded_db) ''2026-02-17''
       = Inr [simplify_task late_page]"
    by (simp add: get_overdue_tasks_def get_tasks_def truthy_def paged_notion_def
        paged_answer_def crowded_by_status crowded_by_date)
      (simp add: crowded_db_def done_pages_kept late_page_hits)
  ultimately show ?thesis by (intro conjI)
qed

section \<open>Provider failures at the tool boundary\<close>

text \<open>
  Claim C8, evaluated where it fails. When \<open>get_events\<close> raises an \<open>HttpError\<close> with
  status 404, the tool \<open>gcal_get_events\<close> returns "Error fetching events: " followed by
  the exception's own text, not the not-found message of \<open>_handle_http_error\<close>; when the
  Notion query raises a rate-limit \<open>APIResponseError\<close>, \<open>notion_get_overdue_tasks\<close>
  returns "Error fetching overdue tasks: " followed by the exception's text, not the
  rate-limit message of \<open>_handle_notion_error\<close>. Both translators are defined and never
  called.
\<close>

theorem provider_errors_not_translated:
  "gcal_get_events str_of dumps (Inl (HttpError 404))
     = ''Error fetching events: '' @ str_of (HttpError 404)
   \<and> handle_http_error str_of 404 = ''Error: Calendar event not found. Check the event ID.''
   \<and> gcal_get_events str_of dumps (Inl (HttpError 404)) \<noteq> handle_http_error str_of 404
   \<and> notion_get_overdue_tasks str_of dumps_tasks
         \<lparr>token_error = None,
          query_tasks = (\<lambda>arg. Inl (APIResponseError ''rate_limited'' message))\<rparr> today
     = ''Error fetching overdue tasks: '' @ str_of (APIResponseError ''rate_limited'' message)
   \<and> handle_notion_error ''rate_limited'' message
     = ''Error: Notion rate limit hit. Wait a moment and retry.''
   \<and> notion_get_overdue_tasks str_of dumps_tasks
         \<lparr>token_error = None,
          query_tasks = (\<lambda>arg. Inl (APIResponseError ''rate_limited'' message))\<rparr> today
     \<noteq> handle_notion_error ''rate_limited'' message"
  by (simp add: gcal_get_events_def handle_http_error_def notion_get_overdue_tasks_def
      get_overdue_tasks_def get_tasks_def truthy_def handle_notion_error_def)

section \<open>Scheduling a task block\<close>

lemma schedule_task_block_ok:
  assumes "service_error p = None" and "insert_error p = None"
  shows "schedule_task_block str_of p tz params w =
     (Inr \<lparr>tb_message = ''Work block created on Google Calendar.'',
           tb_event =
             \<lparr>se_id = assigned_id p, se_title = title_prefix @ stb_task_name params,
              se_start = stb_start params, se_end = stb_end params, se_location = None\<rparr>,
           tb_notion_task_url = stb_task_url params\<rparr>,
      w\<lparr>calendars := calendars w @
          [(stb_calendar_id params,
            \<lparr>eb_summary = title_prefix @ stb_task_name params,
             eb_start = (stb_start params, tz), eb_end = (stb_end params, tz),
             eb_description = Some (block_description (stb_task_url params)),
             eb_location = None\<rparr>)]\<rparr>)"
  using assms
  by (simp add: schedule_task_block_def create_event_def events_insert_def truthy_def
      block_description_def)

lemma schedule_task_block_failed:
  assumes "service_error p \<noteq> None \<or> insert_error p \<noteq> None"
  shows "\<exists>x. schedule_task_block str_of p tz params w
           = (Inl (''Error scheduling task block: '' @ str_of x), w)"
  using assms
  by (auto simp: schedule_task_block_def create_event_def events_insert_def
      split: option.splits)

text \<open>
  Claim C9, as amended. Every invocation of \<open>schedule_task_block\<close> leaves the task
  records unchanged. When the calendar service is obtained and the insert succeeds,
  exactly one event is added to the calendar, its title ending with the task name and its
  description holding the task URL, and nothing else changes. When either step raises, no
  event is added, the state is unchanged, and the tool returns the error text.
\<close>

theorem schedule_task_block_effect:
  "notion_tasks (snd (schedule_task_block str_of p tz params w)) = notion_tasks w
   \<and> (service_error p = None \<and> insert_error p = None \<longrightarrow>
        (\<exists>body response.
            schedule_task_block str_of p tz params w
              = (Inr response, w\<lparr>calendars := calendars w @ [(stb_calendar_id params, body)]\<rparr>)
            \<and> eb_summary body = title_prefix @ stb_task_name params
            \<and> eb_description body = Some (block_description (stb_task_url params))))
   \<and> (service_error p \<noteq> None \<or> insert_error p \<noteq> None \<longrightarrow>
        (\<exists>x. schedule_task_block str_of p tz params w
                = (Inl (''Error scheduling task block: '' @ str_of x), w)))"
proof (intro conjI impI)
  show "notion_tasks (snd (schedule_task_block str_of p tz params w)) = notion_tasks w"
  proof (cases "service_error p = None \<and> insert_error p = None")
    case True
    then show ?thesis by (simp add: schedule_task_block_ok)
  next
    case False
    then have "service_error p \<noteq> None \<or> insert_error p \<noteq> None" by simp
    from schedule_task_block_failed [OF this, of str_of tz params w]
    show ?thesis by auto
  qed
next
  assume ok: "service_error p = None \<and> insert_error p = None"
  let ?body = "\<lparr>eb_summary = title_prefix @ stb_task_name params,
                eb_start = (stb_start params, tz), eb_end = (stb_end params, tz),
                eb_description = Some (block_description (stb_task_url params)),
                eb_location = None\<rparr>"
  from ok have "\<exists>response. schedule_task_block str_of p tz params w
      = (Inr response, w\<lparr>calendars := calendars w @ [(stb_calendar_id params, ?body)]\<rparr>)"
    by (simp add: schedule_task_block_ok)
  then obtain response where "schedule_task_block str_of p tz params w
      = (Inr response, w\<lparr>calendars := calendars w @ [(stb_calendar_id params, ?body)]\<rparr>)" ..
  moreover have "eb_summary ?body = title_prefix @ stb_task_name params" by simp
  moreover have "eb_description ?body = Some (block_description (stb_task_url params))" by simp
  ultimately show "\<exists>body response.
      schedule_task_block str_of p tz params w
        = (Inr response, w\<lparr>calendars := calendars w @ [(stb_calendar_id params, body)]\<rparr>)
      \<and> eb_summary body = title_prefix @ stb_task_name params
      \<and> eb_description body = Some (block_description (stb_task_url params))"
    by (intro exI conjI)
next
  assume "service_error p \<noteq> None \<or> insert_error p \<noteq> None"
  then show "\<exists>x. schedule_task_block str_of p tz params w
                = (Inl (''Error scheduling task block: '' @ str_of x), w)"
    by (rule schedule_task_block_failed)
qed

text \<open>A successful request: one event on the primary calendar, the task untouched.\<close>

theorem schedule_task_block_effect_witness:
  "service_error provider_ok = None
   \<and> insert_error provider_ok = None
   \<and> notion_tasks
         (snd (schedule_task_block render provider_ok ''America/Los_Angeles'' demo_block
                 demo_world))
       = notion_tasks demo_world
   \<and> (\<exists>body response.
          schedule_task_block render provider_ok ''America/Los_Angeles'' demo_block demo_world
            = (Inr response,
               demo_world\<lparr>calendars :=
                 calendars demo_world @ [(stb_calendar_id demo_block, body)]\<rparr>)
          \<and> eb_summary body = title_prefix @ stb_task_name demo_block
          \<and> eb_description body = Some (block_description (stb_task_url demo_block)))"
proof -
  have ok1: "service_error provider_ok = None" by (simp add: provider_ok_def)
  have ok2: "insert_error provider_ok = None" by (simp add: provider_ok_def)
  note inst = schedule_task_block_effect
    [of render provider_ok "''America/Los_Angeles''" demo_block demo_world]
  from inst have frame: "notion_tasks
         (snd (schedule_task_block render provider_ok ''America/Los_Angeles'' demo_block
                 demo_world))
       = notion_tasks demo_world"
    by (rule conjunct1)
  from inst [THEN conjunct2, THEN conjunct1] conjI [OF ok1 ok2]
  have created: "\<exists>body response.
          schedule_task_block render provider_ok ''America/Los_Angeles'' demo_block demo_world
            = (Inr response,
               demo_world\<lparr>calendars :=
                 calendars demo_world @ [(stb_calendar_id demo_block, body)]\<rparr>)
          \<and> eb_summary body = title_prefix @ stb_task_name demo_block
          \<and> eb_description body = Some (block_description (stb_task_url demo_block))"
    by (rule mp)
  from ok1 ok2 frame created show ?thesis by (intro conjI)
qed

text \<open>
  A request whose insert is refused (HTTP 403): the calendar, empty before, is empty
  after; no event is created and the tool returns the error text.
\<close>

theorem schedule_task_block_denied:
  "calendars demo_world = []
   \<and> schedule_task_block render provider_denied ''America/Los_Angeles'' demo_block demo_world
     = (Inl ''Error scheduling task block: HttpError'', demo_world)"
  by (simp add: schedule_task_block_def create_event_def events_insert_def provider_denied_def
      demo_world_def render_def)

section \<open>Input validation of the find-free-slots tool\<close>

text \<open>
  Claim C10, as amended. The arguments of the find-free-slots tool are accepted exactly
  when no undeclared field is present, the date is present, the duration is present with
  \<open>15 \<le> duration_minutes \<le> 480\<close>, the earliest hour (default 8) is in 0..23 and the latest
  hour (default 20) is in 1..24; and whenever they are not accepted the call is rejected
  with no provider call made.
\<close>

theorem find_free_slots_validation:
  "(validate_FindFreeSlotsInput a \<noteq> None \<longleftrightarrow>
      arg_extra a = [] \<and> arg_date a \<noteq> None
      \<and> (\<exists>n. arg_duration_minutes a = Some n \<and> 15 \<le> n \<and> n \<le> 480)
      \<and> 0 \<le> or_default (arg_earliest_hour a) 8 \<and> or_default (arg_earliest_hour a) 8 \<le> 23
      \<and> 1 \<le> or_default (arg_latest_hour a) 20 \<and> or_default (arg_latest_hour a) 20 \<le> 24)
   \<and> (validate_FindFreeSlotsInput a = None \<longrightarrow>
        call_gcal_find_free_slots str_of dumps fromiso day0 get_events a = (Rejected, []))"
  by (auto simp: validate_FindFreeSlotsInput_def call_gcal_find_free_slots_def Let_def
      split: option.splits if_splits)

text \<open>14 minutes is rejected with no provider call; 15 minutes is accepted.\<close>

theorem find_free_slots_validation_witness:
  "validate_FindFreeSlotsInput (demo_args 14) = None
   \<and> call_gcal_find_free_slots render (\<lambda>slots. ''slots'') clock midnight (\<lambda>c. Inr [])
        (demo_args 14) = (Rejected, [])
   \<and> validate_FindFreeSlotsInput (demo_args 15) \<noteq> None"
proof -
  have refused: "validate_FindFreeSlotsInput (demo_args 14) = None"
    by (simp add: validate_FindFreeSlotsInput_def demo_args_def or_default_def)
  from find_free_slots_validation
    [of "demo_args 14" render "\<lambda>slots. ''slots''" clock midnight "\<lambda>c. Inr []",
     THEN conjunct2] refused
  have no_call: "call_gcal_find_free_slots render (\<lambda>slots. ''slots'') clock midnight
      (\<lambda>c. Inr []) (demo_args 14) = (Rejected, [])"
    by (rule mp)
  have "arg_extra (demo_args 15) = [] \<and> arg_date (demo_args 15) \<noteq> None
      \<and> (\<exists>n. arg_duration_minutes (demo_args 15) = Some n \<and> 15 \<le> n \<and> n \<le> 480)
      \<and> 0 \<le> or_default (arg_earliest_hour (demo_args 15)) 8
      \<and> or_default (arg_earliest_hour (demo_args 15)) 8 \<le> 23
      \<and> 1 \<le> or_default (arg_latest_hour (demo_args 15)) 20
      \<and> or_default (arg_latest_hour (demo_args 15)) 20 \<le> 24"
    by (simp add: demo_args_def or_default_def)
  with find_free_slots_validation
    [of "demo_args 15" render "\<lambda>slots. ''slots''" clock midnight "\<lambda>c. Inr []",
     THEN conjunct1]
  have accepted: "validate_FindFreeSlotsInput (demo_args 15) \<noteq> None"
    by (rule iffD2)
  from refused no_call accepted show ?thesis by (intro conjI)
qed

text \<open>
  A duration of 1 minute, with every other argument valid, is rejected by the bound
  \<open>ge=15\<close>.
\<close>

theorem find_free_slots_rejects_short:
  "validate_FindFreeSlotsInput (demo_args 1) = None
   \<and> call_gcal_find_free_slots render (\<lambda>slots. ''slots'') clock midnight (\<lambda>c. Inr [])
        (demo_args 1) = (Rejected, [])"
  by (simp add: validate_FindFreeSlotsInput_def call_gcal_find_free_slots_def demo_args_def
      or_default_def)
end
